theory Spec2Isabelle
  imports Complex_Main "HOL-Library.Log_Nat"
begin

section \<open>Colour utility: \<open>hex_to_rgb\<close>\<close>

text \<open>
  Both scripts (\<open>create_infographic.py\<close> and \<open>create_features_infographic.py\<close>) define
  \<^verbatim>\<open>
  def hex_to_rgb(hex_color):
      hex_color = hex_color.lstrip('#')
      return tuple(int(hex_color[i:i+2], 16) for i in (0, 2, 4))
  \<close>
  Python strings are modelled as \<open>string\<close>: lists of 8-bit characters, read as the code
  points 0..255.  Exceptions are values of the type \<open>error\<close>.
\<close>

datatype error = ValueError | OSError | UnicodeEncodeError

type_synonym rgb = "int \<times> int \<times> int"

text \<open>
  The builtin \<open>int(s, 16)\<close> on a string, after CPython's \<open>PyLong_FromString\<close>: leading
  whitespace, an optional sign, an optional \<open>0x\<close> prefix (with one underscore allowed
  after it), digits with single underscores between them, trailing whitespace.  Anything
  else raises \<open>ValueError\<close>.
\<close>

definition py_isspace :: "char \<Rightarrow> bool" where
  "py_isspace c = (of_char c \<in> {9::nat, 10, 11, 12, 13, 32, 133, 160})"

definition digit_value :: "char \<Rightarrow> int option" where
  "digit_value c =
     (let n = int (of_char c)
      in if 48 \<le> n \<and> n \<le> 57 then Some (n - 48)
         else if 97 \<le> n \<and> n \<le> 122 then Some (n - 87)
         else if 65 \<le> n \<and> n \<le> 90 then Some (n - 55)
         else None)"

definition hex_value :: "char \<Rightarrow> int option" where
  "hex_value c = (case digit_value c of
       Some d \<Rightarrow> if d < 16 then Some d else None
     | None \<Rightarrow> None)"

fun scan_digits :: "string \<Rightarrow> char \<Rightarrow> int \<Rightarrow> nat \<Rightarrow> (string \<times> int \<times> nat) option" where
  "scan_digits [] prev acc n = (if prev = CHR ''_'' then None else Some ([], acc, n))"
| "scan_digits (c # cs) prev acc n =
     (if c = CHR ''_'' then (if prev = CHR ''_'' then None else scan_digits cs c acc n)
      else case hex_value c of
             Some d \<Rightarrow> scan_digits cs c (acc * 16 + d) (Suc n)
           | None \<Rightarrow> if prev = CHR ''_'' then None else Some (c # cs, acc, n))"

definition skip_sign :: "string \<Rightarrow> int \<times> string" where
  "skip_sign s = (case s of
       [] \<Rightarrow> (1, [])
     | c # r \<Rightarrow> if c = CHR ''+'' then (1, r) else if c = CHR ''-'' then (- 1, r) else (1, s))"

definition skip_prefix :: "string \<Rightarrow> string" where
  "skip_prefix s = (case s of
       c # x # r \<Rightarrow>
         if c = CHR ''0'' \<and> (x = CHR ''x'' \<or> x = CHR ''X'')
         then (case r of [] \<Rightarrow> r | u # r' \<Rightarrow> if u = CHR ''_'' then r' else r)
         else s
     | _ \<Rightarrow> s)"

definition py_int16 :: "string \<Rightarrow> error + int" where
  "py_int16 s =
     (let (sign, s2) = skip_sign (dropWhile py_isspace s);
          s3 = skip_prefix s2
      in if s3 \<noteq> [] \<and> hd s3 = CHR ''_'' then Inl ValueError
         else case scan_digits s3 (CHR 0x00) 0 0 of
                None \<Rightarrow> Inl ValueError
              | Some (rest, v, n) \<Rightarrow>
                  if n = 0 then Inl ValueError
                  else if dropWhile py_isspace rest \<noteq> [] then Inl ValueError
                  else Inr (sign * v))"

definition lstrip :: "char \<Rightarrow> string \<Rightarrow> string" where
  "lstrip c s = dropWhile (\<lambda>x. x = c) s"

definition slice2 :: "string \<Rightarrow> nat \<Rightarrow> string" where
  \<comment> \<open>\<open>s[i:i+2]\<close>; a slice past the end is shorter or empty, never an error\<close>
  "slice2 s i = take 2 (drop i s)"

definition hex_to_rgb :: "string \<Rightarrow> error + rgb" where
  "hex_to_rgb hex_color =
     (let h = lstrip (CHR ''#'') hex_color
      in case py_int16 (slice2 h 0) of
           Inl e \<Rightarrow> Inl e
         | Inr r \<Rightarrow>
            (case py_int16 (slice2 h 2) of
               Inl e \<Rightarrow> Inl e
             | Inr g \<Rightarrow>
                (case py_int16 (slice2 h 4) of
                   Inl e \<Rightarrow> Inl e
                 | Inr b \<Rightarrow> Inr (r, g, b))))"

text \<open>
  Modelled from the spec: the reformatting of a triple as six hexadecimal digits, which
  the spec's round trip uses and the repository does not define.  \<open>rgb_to_hex\<close> is
  Python's \<open>'%02x%02x%02x' % (r, g, b)\<close> on channels in 0..255.
\<close>

definition hex_char :: "int \<Rightarrow> char" where
  "hex_char d = (if d < 10 then char_of (nat (48 + d)) else char_of (nat (87 + d)))"

definition hex2 :: "int \<Rightarrow> string" where
  "hex2 n = [hex_char (n div 16), hex_char (n mod 16)]"

definition rgb_to_hex :: "rgb \<Rightarrow> string" where
  "rgb_to_hex c = (case c of (r, g, b) \<Rightarrow> hex2 r @ hex2 g @ hex2 b)"

definition lower :: "char \<Rightarrow> char" where
  "lower c = (let n = of_char c :: nat in if 65 \<le> n \<and> n \<le> 90 then char_of (n + 32) else c)"

definition is_hex :: "char \<Rightarrow> bool" where
  "is_hex c = (hex_value c \<noteq> None)"

definition hex6 :: "string \<Rightarrow> bool" where
  "hex6 d = (length d = 6 \<and> list_all is_hex d)"

definition channel :: "int \<Rightarrow> bool" where
  "channel v = (0 \<le> v \<and> v \<le> 255)"

definition pair_value :: "char \<Rightarrow> char \<Rightarrow> int" where
  "pair_value a b = 16 * the (hex_value a) + the (hex_value b)"

section \<open>Python floating point\<close>

text \<open>
  The gradient computes with Python floats: IEEE 754 binary64, round to nearest, ties to
  even.  A finite double is a rational number, so a float is modelled as the \<open>rat\<close> it
  denotes and every operation as the exact operation followed by \<open>round_double\<close>.  The
  significand has 53 bits; below \<open>2 powi (- 1022)\<close> the spacing stays at
  \<open>2 powi (- 1074)\<close> (subnormal numbers).  Overflow is left out: every value computed
  below has magnitude at most 765.
\<close>

definition rne :: "rat \<Rightarrow> int" where
  \<comment> \<open>round to the nearest integer, ties to the even one\<close>
  "rne x =
     (let f = \<lfloor>x\<rfloor>; d = x - of_int f
      in if d < 1 / 2 then f else if 1 / 2 < d then f + 1 else if even f then f else f + 1)"

definition ilog2 :: "rat \<Rightarrow> int" where
  \<comment> \<open>for \<open>x > 0\<close>, the exponent \<open>e\<close> with \<open>2 powi e \<le> x < 2 powi (e + 1)\<close>\<close>
  "ilog2 x =
     (case quotient_of x of (a, b) \<Rightarrow>
        let e = bitlen a - bitlen b in if 2 powi e \<le> x then e else e - 1)"

definition round_double :: "rat \<Rightarrow> rat" where
  "round_double x =
     (if x = 0 then 0
      else let e = max (ilog2 \<bar>x\<bar>) (- 1022); q = 2 powi (e - 52)
           in of_int (rne (x / q)) * q)"

definition float_of_int :: "int \<Rightarrow> rat" where
  "float_of_int n = round_double (of_int n)"

definition float_mul :: "rat \<Rightarrow> rat \<Rightarrow> rat" where
  "float_mul x y = round_double (x * y)"

definition float_add :: "rat \<Rightarrow> rat \<Rightarrow> rat" where
  "float_add x y = round_double (x + y)"

definition int_truediv :: "int \<Rightarrow> int \<Rightarrow> rat" where
  \<comment> \<open>\<open>a / b\<close> on two Python ints, \<open>b \<noteq> 0\<close>: the correctly rounded quotient\<close>
  "int_truediv a b = round_double (of_int a / of_int b)"

definition py_int_of_float :: "rat \<Rightarrow> int" where
  \<comment> \<open>\<open>int(x)\<close> truncates towards zero\<close>
  "py_int_of_float x = (if 0 \<le> x then \<lfloor>x\<rfloor> else \<lceil>x\<rceil>)"

section \<open>Raster images and the drawing primitives\<close>

text \<open>
  An image is its size and its pixels.  The pixel type is a parameter: \<open>rgb\<close> for the
  canvas (mode \<open>RGB\<close>), \<open>rgba\<close> for the gradient overlay, \<open>int\<close> for its mask (mode
  \<open>L\<close>).  Only the pixels inside the bounds exist; drawing outside is clipped.
\<close>

type_synonym point = "int \<times> int"
type_synonym box = "int \<times> int \<times> int \<times> int"
type_synonym rgba = "int \<times> int \<times> int \<times> int"

record 'a image =
  img_w :: int
  img_h :: int
  img_px :: "point \<Rightarrow> 'a"

definition inside :: "'a image \<Rightarrow> point \<Rightarrow> bool" where
  "inside im p = (case p of (x, y) \<Rightarrow> 0 \<le> x \<and> x < img_w im \<and> 0 \<le> y \<and> y < img_h im)"

definition and_then :: "error + 'a \<Rightarrow> ('a \<Rightarrow> error + 'b) \<Rightarrow> error + 'b" where
  \<comment> \<open>statement sequencing: an exception ends the function\<close>
  "and_then r f = (case r of Inl e \<Rightarrow> Inl e | Inr a \<Rightarrow> f a)"

text \<open>
  The imaging library (Pillow) is not part of the repository.  Its calls are modelled
  after its documentation: \<open>Image.new\<close> rejects a negative size; \<open>rectangle\<close> and
  \<open>ellipse\<close> take a box \<open>[x0, y0, x1, y1]\<close> whose second corner is included and reject
  a box with \<open>x1 < x0\<close> or \<open>y1 < y0\<close>; \<open>line\<close> includes both end points.  Which pixels of
  its box an ellipse covers is left open: the rasteriser is the parameter \<open>E\<close> of every
  function that draws one, and the theorems hold for every rasteriser.
\<close>

definition image_new :: "int \<Rightarrow> int \<Rightarrow> 'a \<Rightarrow> error + 'a image" where
  "image_new w h c =
     (if w < 0 \<or> h < 0 then Inl ValueError
      else Inr \<lparr>img_w = w, img_h = h, img_px = (\<lambda>p. c)\<rparr>)"

definition valid_box :: "box \<Rightarrow> bool" where
  "valid_box b = (case b of (x0, y0, x1, y1) \<Rightarrow> x0 \<le> x1 \<and> y0 \<le> y1)"

definition in_rect :: "box \<Rightarrow> point \<Rightarrow> bool" where
  "in_rect b p =
     (case b of (x0, y0, x1, y1) \<Rightarrow> case p of (x, y) \<Rightarrow>
        x0 \<le> x \<and> x \<le> x1 \<and> y0 \<le> y \<and> y \<le> y1)"

definition fill_region :: "(point \<Rightarrow> bool) \<Rightarrow> 'a \<Rightarrow> 'a image \<Rightarrow> 'a image" where
  "fill_region R c im = im\<lparr>img_px := (\<lambda>p. if inside im p \<and> R p then c else img_px im p)\<rparr>"

definition rectangle :: "'a image \<Rightarrow> box \<Rightarrow> 'a \<Rightarrow> error + 'a image" where
  "rectangle im b c = (if valid_box b then Inr (fill_region (in_rect b) c im) else Inl ValueError)"

type_synonym rasteriser = "box \<Rightarrow> point \<Rightarrow> bool"

definition ellipse :: "rasteriser \<Rightarrow> 'a image \<Rightarrow> box \<Rightarrow> 'a \<Rightarrow> error + 'a image" where
  "ellipse E im b c = (if valid_box b then Inr (fill_region (E b) c im) else Inl ValueError)"

definition ideal_ellipse :: rasteriser where
  \<comment> \<open>one rasteriser, for concrete evaluation: the pixels of the box whose centre lies in
      the inscribed ellipse\<close>
  "ideal_ellipse b p =
     (case b of (x0, y0, x1, y1) \<Rightarrow> case p of (x, y) \<Rightarrow>
        in_rect b p \<and>
        (2 * x - x0 - x1)\<^sup>2 * (y1 - y0)\<^sup>2 + (2 * y - y0 - y1)\<^sup>2 * (x1 - x0)\<^sup>2
          \<le> (x1 - x0)\<^sup>2 * (y1 - y0)\<^sup>2)"

definition in_hline :: "int \<Rightarrow> int \<Rightarrow> int \<Rightarrow> point \<Rightarrow> bool" where
  "in_hline xa xb row p = (case p of (x, y) \<Rightarrow> y = row \<and> min xa xb \<le> x \<and> x \<le> max xa xb)"

definition line :: "'a image \<Rightarrow> int \<Rightarrow> int \<Rightarrow> int \<Rightarrow> 'a \<Rightarrow> 'a image" where
  \<comment> \<open>\<open>line([(xa, row), (xb, row)], fill)\<close>: the horizontal lines are the only ones drawn\<close>
  "line im xa xb row c = fill_region (in_hline xa xb row) c im"

definition clip8 :: "int \<Rightarrow> int" where
  "clip8 v = max 0 (min 255 v)"

definition ink :: "rgba \<Rightarrow> rgba" where
  \<comment> \<open>a colour tuple is stored as four bytes\<close>
  "ink c = (case c of (r, g, b, a) \<Rightarrow> (clip8 r, clip8 g, clip8 b, clip8 a))"

definition putalpha :: "rgba image \<Rightarrow> int image \<Rightarrow> rgba image" where
  "putalpha im alpha =
     im\<lparr>img_px := (\<lambda>p. case img_px im p of (r, g, b, a) \<Rightarrow> (r, g, b, img_px alpha p))\<rparr>"

definition muldiv255 :: "int \<Rightarrow> int \<Rightarrow> int" where
  "muldiv255 a b = (let t = a * b + 128 in (t div 256 + t) div 256)"

definition blend8 :: "int \<Rightarrow> int \<Rightarrow> int \<Rightarrow> int" where
  \<comment> \<open>\<open>Image.paste\<close> with a mask: where the mask is 255 the pasted image is copied as is,
      where it is 0 the current value is kept, intermediate values mix the two\<close>
  "blend8 m cur new =
     (if m = 0 then cur else if m = 255 then new
      else muldiv255 cur (255 - m) + muldiv255 new m)"

definition paste :: "rgb image \<Rightarrow> rgba image \<Rightarrow> point \<Rightarrow> rgb image" where
  \<comment> \<open>\<open>img.paste(overlay, (x, y), overlay)\<close>: the overlay's alpha band is the mask\<close>
  "paste im ov corner =
     (case corner of (ox, oy) \<Rightarrow>
        im\<lparr>img_px := (\<lambda>p. case p of (x, y) \<Rightarrow>
             if inside im p \<and> inside ov (x - ox, y - oy)
             then (case img_px ov (x - ox, y - oy) of (r, g, b, a) \<Rightarrow>
                     case img_px im p of (cr, cg, cb) \<Rightarrow>
                       (blend8 a cr r, blend8 a cg g, blend8 a cb b))
             else img_px im p)\<rparr>)"

section \<open>Rounded rectangles\<close>

text \<open>
  \<open>create_infographic.py\<close> draws with the radius it is given:
  \<^verbatim>\<open>
  def draw_rounded_rect(draw, coords, radius, fill):
      x1, y1, x2, y2 = coords
      draw.rectangle([x1 + radius, y1, x2 - radius, y2], fill=fill)
      draw.rectangle([x1, y1 + radius, x2, y2 - radius], fill=fill)
      draw.ellipse([x1, y1, x1 + 2*radius, y1 + 2*radius], fill=fill)
      draw.ellipse([x2 - 2*radius, y1, x2, y1 + 2*radius], fill=fill)
      draw.ellipse([x1, y2 - 2*radius, x1 + 2*radius, y2], fill=fill)
      draw.ellipse([x2 - 2*radius, y2 - 2*radius, x2, y2], fill=fill)
  \<close>
  \<open>create_features_infographic.py\<close> has the same six calls after
  \<open>r = min(radius, (x2 - x1) // 2, (y2 - y1) // 2)\<close>, with \<open>r\<close> for \<open>radius\<close>.  The first
  is \<open>draw_rounded_rect_yield\<close> below (the script of the yield infographic), the second
  \<open>draw_rounded_rect\<close>.
\<close>

definition draw_rounded_rect_yield ::
  "rasteriser \<Rightarrow> 'a image \<Rightarrow> box \<Rightarrow> int \<Rightarrow> 'a \<Rightarrow> error + 'a image" where
  "draw_rounded_rect_yield E draw coords radius fill =
     (case coords of (x1, y1, x2, y2) \<Rightarrow>
        and_then (rectangle draw (x1 + radius, y1, x2 - radius, y2) fill) (\<lambda>draw.
        and_then (rectangle draw (x1, y1 + radius, x2, y2 - radius) fill) (\<lambda>draw.
        and_then (ellipse E draw (x1, y1, x1 + 2 * radius, y1 + 2 * radius) fill) (\<lambda>draw.
        and_then (ellipse E draw (x2 - 2 * radius, y1, x2, y1 + 2 * radius) fill) (\<lambda>draw.
        and_then (ellipse E draw (x1, y2 - 2 * radius, x1 + 2 * radius, y2) fill) (\<lambda>draw.
        ellipse E draw (x2 - 2 * radius, y2 - 2 * radius, x2, y2) fill))))))"

definition draw_rounded_rect ::
  "rasteriser \<Rightarrow> 'a image \<Rightarrow> box \<Rightarrow> int \<Rightarrow> 'a \<Rightarrow> error + 'a image" where
  "draw_rounded_rect E draw coords radius fill =
     (case coords of (x1, y1, x2, y2) \<Rightarrow>
        let r = min radius (min ((x2 - x1) div 2) ((y2 - y1) div 2)) in
        and_then (rectangle draw (x1 + r, y1, x2 - r, y2) fill) (\<lambda>draw.
        and_then (rectangle draw (x1, y1 + r, x2, y2 - r) fill) (\<lambda>draw.
        and_then (ellipse E draw (x1, y1, x1 + 2 * r, y1 + 2 * r) fill) (\<lambda>draw.
        and_then (ellipse E draw (x2 - 2 * r, y1, x2, y1 + 2 * r) fill) (\<lambda>draw.
        and_then (ellipse E draw (x1, y2 - 2 * r, x1 + 2 * r, y2) fill) (\<lambda>draw.
        ellipse E draw (x2 - 2 * r, y2 - 2 * r, x2, y2) fill))))))"

text \<open>
  The shape of the spec (section 4.2), in its words: the union of a strip inset by the
  radius on the left and right over the full height, a strip inset by the radius on the top
  and bottom over the full width, and four filled circles of diameter twice the radius in
  the four corners.
\<close>

definition rounded_region :: "rasteriser \<Rightarrow> box \<Rightarrow> int \<Rightarrow> point \<Rightarrow> bool" where
  "rounded_region E coords r p =
     (case coords of (x1, y1, x2, y2) \<Rightarrow>
        in_rect (x1 + r, y1, x2 - r, y2) p \<or> in_rect (x1, y1 + r, x2, y2 - r) p
        \<or> E (x1, y1, x1 + 2 * r, y1 + 2 * r) p \<or> E (x2 - 2 * r, y1, x2, y1 + 2 * r) p
        \<or> E (x1, y2 - 2 * r, x1 + 2 * r, y2) p \<or> E (x2 - 2 * r, y2 - 2 * r, x2, y2) p)"

definition effective_radius :: "box \<Rightarrow> int \<Rightarrow> int" where
  \<comment> \<open>the radius \<open>r\<close> that \<open>draw_rounded_rect\<close> of \<open>create_features_infographic.py\<close> computes\<close>
  "effective_radius coords radius =
     (case coords of (x1, y1, x2, y2) \<Rightarrow> min radius (min ((x2 - x1) div 2) ((y2 - y1) div 2)))"

definition claimed_radius :: "box \<Rightarrow> int \<Rightarrow> rat" where
  \<comment> \<open>the radius in the words of the specification, \<open>min(R, (x2 - x1) / 2, (y2 - y1) / 2)\<close>:
      the halves are not rounded\<close>
  "claimed_radius coords radius =
     (case coords of (x1, y1, x2, y2) \<Rightarrow>
        min (of_int radius) (min (of_int (x2 - x1) / 2) (of_int (y2 - y1) / 2)))"

section \<open>The gradient compositor\<close>

text \<open>
  \<^verbatim>\<open>
  def draw_gradient_rect(img, coords, color_top, color_bot, radius=0):
      x1, y1, x2, y2 = coords
      ct = hex_to_rgb(color_top)
      cb = hex_to_rgb(color_bot)
      h = y2 - y1
      overlay = Image.new('RGBA', (x2 - x1, h), (0, 0, 0, 0))
      od = ImageDraw.Draw(overlay)
      for row in range(h):
          t = row / max(h - 1, 1)
          r = int(ct[0] + (cb[0] - ct[0]) * t)
          g = int(ct[1] + (cb[1] - ct[1]) * t)
          b = int(ct[2] + (cb[2] - ct[2]) * t)
          od.line([(0, row), (x2 - x1, row)], fill=(r, g, b, 255))
      if radius > 0:
          mask = Image.new('L', overlay.size, 0)
          md = ImageDraw.Draw(mask)
          draw_rounded_rect(md, (0, 0, overlay.width, overlay.height), radius, 255)
          overlay.putalpha(mask)
      img.paste(overlay, (x1, y1), overlay)
  \<close>
  \<open>gradient_channel\<close> is one of the three assignments of the loop body, \<open>gradient_row\<close>
  the loop body, \<open>gradient_buffer\<close> the overlay after the loop.
\<close>

definition gradient_channel :: "int \<Rightarrow> int \<Rightarrow> rat \<Rightarrow> int" where
  "gradient_channel ct cb t =
     py_int_of_float (float_add (float_of_int ct) (float_mul (float_of_int (cb - ct)) t))"

definition gradient_row :: "rgb \<Rightarrow> rgb \<Rightarrow> int \<Rightarrow> int \<Rightarrow> int \<Rightarrow> rgba image \<Rightarrow> rgba image" where
  "gradient_row ct cb h w row od =
     (case ct of (tr, tg, tb) \<Rightarrow> case cb of (br, bg, bb) \<Rightarrow>
        let t = int_truediv row (max (h - 1) 1);
            r = gradient_channel tr br t;
            g = gradient_channel tg bg t;
            b = gradient_channel tb bb t
        in line od 0 w row (ink (r, g, b, 255)))"

definition gradient_buffer :: "rgb \<Rightarrow> rgb \<Rightarrow> int \<Rightarrow> int \<Rightarrow> error + rgba image" where
  "gradient_buffer ct cb w h =
     and_then (image_new w h (0, 0, 0, 0)) (\<lambda>overlay.
     Inr (fold (gradient_row ct cb h w) [0..h - 1] overlay))"

definition draw_gradient_rect ::
  "rasteriser \<Rightarrow> rgb image \<Rightarrow> box \<Rightarrow> string \<Rightarrow> string \<Rightarrow> int \<Rightarrow> error + rgb image" where
  "draw_gradient_rect E img coords color_top color_bot radius =
     (case coords of (x1, y1, x2, y2) \<Rightarrow>
        and_then (hex_to_rgb color_top) (\<lambda>ct.
        and_then (hex_to_rgb color_bot) (\<lambda>cb.
        let h = y2 - y1 in
        and_then (gradient_buffer ct cb (x2 - x1) h) (\<lambda>overlay.
        and_then
          (if radius > 0
           then and_then (image_new (img_w overlay) (img_h overlay) 0) (\<lambda>md.
                and_then (draw_rounded_rect E md (0, 0, img_w overlay, img_h overlay) radius 255)
                  (\<lambda>md. Inr (putalpha overlay md)))
           else Inr overlay) (\<lambda>overlay.
        Inr (paste img overlay (x1, y1)))))))"

text \<open>
  The colour of a row in the words of the spec (section 4.3): each channel is
  \<open>int(top + (bottom - top) * (row / max(height - 1, 1)))\<close>, the row is opaque.
\<close>

definition gradient_colour :: "rgb \<Rightarrow> rgb \<Rightarrow> int \<Rightarrow> int \<Rightarrow> rgba" where
  "gradient_colour ct cb h row =
     (case ct of (tr, tg, tb) \<Rightarrow> case cb of (br, bg, bb) \<Rightarrow>
        (gradient_channel tr br (int_truediv row (max (h - 1) 1)),
         gradient_channel tg bg (int_truediv row (max (h - 1) 1)),
         gradient_channel tb bb (int_truediv row (max (h - 1) 1)), 255))"

definition red :: "int \<times> int \<times> int \<times> 'a \<Rightarrow> int" where
  "red c = fst c"

definition green :: "int \<times> int \<times> int \<times> 'a \<Rightarrow> int" where
  "green c = fst (snd c)"

definition blue :: "int \<times> int \<times> int \<times> 'a \<Rightarrow> int" where
  "blue c = fst (snd (snd c))"

section \<open>The layout routines\<close>

text \<open>
  Each script has one routine, \<open>create_infographic\<close>, a fixed sequence of drawing calls
  around a vertical cursor.  Its only inputs are the files it loads, so the model takes an
  environment: whether a font file and an image file can be opened, and what the library
  answers to the one text measurement.  What is drawn is recorded as the list of drawing
  calls in the order made: kind, geometry, font and colour.  Of a string drawn the model
  keeps whether all its characters are in Latin-1 (\<open>Latin1\<close>) or not (\<open>NonLatin1\<close>: the
  strings with the bullet U+2022, the check mark U+2713, the dash U+2014 or the euro sign
  U+20AC in them); a text of several lines is represented by its number of lines.

  \<open>create_infographic\<close> below is the sequence of calls the script makes and the image it
  would save, every drawing call taken to return.  Whether \<open>draw.text\<close> does return
  depends on the font and the string: that is \<open>main\<close>, in the subsection on the text
  rendering of the library.  The text measurement of the library and its loading of fonts
  and images can raise.
\<close>

datatype face = Bold | Regular

datatype font = TrueType face nat | DefaultFont

datatype anchor = MM | No_anchor

datatype charset = Latin1 | NonLatin1

datatype call =
    Text point charset font rgb anchor
  | RoundedRect box int rgb
  | GradientRect box string string int
  | Rectangle box rgb
  | Ellipse box rgb
  | Paste string point

record env =
  font_file :: "face \<Rightarrow> bool"
  image_file :: "string \<Rightarrow> bool"
  text_bbox :: "font \<Rightarrow> error + box"
  bitmap_default :: bool

definition truetype :: "env \<Rightarrow> face \<Rightarrow> nat \<Rightarrow> error + font" where
  \<comment> \<open>\<open>ImageFont.truetype(path, size)\<close>\<close>
  "truetype e f pt = (if font_file e f then Inr (TrueType f pt) else Inl OSError)"

definition image_open :: "env \<Rightarrow> string \<Rightarrow> error + string" where
  \<comment> \<open>\<open>Image.open(path)\<close>, with the conversion and the resizing that follow it\<close>
  "image_open e path = (if image_file e path then Inr path else Inl OSError)"

definition draw_text :: "point \<Rightarrow> charset \<Rightarrow> font \<Rightarrow> string \<Rightarrow> anchor \<Rightarrow> error + call" where
  \<comment> \<open>\<open>draw.text(xy, s, font=f, fill=hex_to_rgb(c), anchor=a)\<close>\<close>
  "draw_text xy s f c a = and_then (hex_to_rgb c) (\<lambda>fill. Inr (Text xy s f fill a))"

definition rounded_rect :: "box \<Rightarrow> int \<Rightarrow> string \<Rightarrow> error + call" where
  \<comment> \<open>\<open>draw_rounded_rect(draw, coords, radius, hex_to_rgb(c))\<close>\<close>
  "rounded_rect coords radius c = and_then (hex_to_rgb c) (\<lambda>fill. Inr (RoundedRect coords radius fill))"

definition gradient_rect :: "box \<Rightarrow> string \<Rightarrow> string \<Rightarrow> int \<Rightarrow> error + call" where
  \<comment> \<open>\<open>draw_gradient_rect(img, coords, top, bottom, radius)\<close>: it parses the colours and
      allocates the overlay\<close>
  "gradient_rect coords color_top color_bot radius =
     (case coords of (x1, y1, x2, y2) \<Rightarrow>
        and_then (hex_to_rgb color_top) (\<lambda>ct.
        and_then (hex_to_rgb color_bot) (\<lambda>cb.
        if x2 - x1 < 0 \<or> y2 - y1 < 0 then Inl ValueError
        else Inr (GradientRect coords color_top color_bot radius))))"

definition rectangle_call :: "box \<Rightarrow> string \<Rightarrow> error + call" where
  "rectangle_call b c = and_then (hex_to_rgb c) (\<lambda>fill. Inr (Rectangle b fill))"

definition ellipse_call :: "box \<Rightarrow> string \<Rightarrow> error + call" where
  "ellipse_call b c = and_then (hex_to_rgb c) (\<lambda>fill. Inr (Ellipse b fill))"

fun sequence :: "(error + 'a) list \<Rightarrow> error + 'a list" where
  "sequence [] = Inr []"
| "sequence (x # xs) = and_then x (\<lambda>a. and_then (sequence xs) (\<lambda>as. Inr (a # as)))"

text \<open>
  A block is what happens between two updates of the cursor: the calls made with the
  cursor at \<open>y\<close>, then the amount added to the cursor.  The state is the cursor, the calls
  made so far and the values the cursor has taken.
\<close>

type_synonym block = "int \<Rightarrow> error + (call list \<times> int)"

definition draws :: "(int \<Rightarrow> (error + call) list) \<Rightarrow> int \<Rightarrow> block" where
  "draws d a y = and_then (sequence (d y)) (\<lambda>cs. Inr (cs, a))"

record state =
  cursor :: int
  drawn :: "call list"
  trace :: "int list"

definition run_block :: "block \<Rightarrow> state \<Rightarrow> error + state" where
  "run_block b st =
     and_then (b (cursor st)) (\<lambda>r. case r of (cs, a) \<Rightarrow>
       Inr \<lparr>cursor = cursor st + a, drawn = drawn st @ cs, trace = trace st @ [cursor st + a]\<rparr>)"

fun run_blocks :: "block list \<Rightarrow> state \<Rightarrow> error + state" where
  "run_blocks [] st = Inr st"
| "run_blocks (b # bs) st = and_then (run_block b st) (run_blocks bs)"

record canvas =
  cv_w :: int
  cv_h :: int
  cv_background :: rgb
  cv_calls :: "call list"

definition crop :: "canvas \<Rightarrow> box \<Rightarrow> canvas" where
  \<comment> \<open>\<open>img.crop((left, upper, right, lower))\<close>\<close>
  "crop img b = (case b of (l, u, r, lo) \<Rightarrow> img\<lparr>cv_w := r - l, cv_h := lo - u\<rparr>)"

record result =
  saved :: canvas
  working :: canvas
  cursors :: "int list"

subsection \<open>Constants\<close>

definition WIDTH :: int where "WIDTH = 1200"
definition HEIGHT :: int where "HEIGHT = 3200"
definition HEIGHT_yield :: int where "HEIGHT_yield = 1600"
definition BACKGROUND_COLOR :: string where "BACKGROUND_COLOR = ''#0f1419''"
definition PRIMARY_COLOR :: string where "PRIMARY_COLOR = ''#00d4aa''"
definition SECONDARY_COLOR :: string where "SECONDARY_COLOR = ''#1da1f2''"
definition ACCENT_PURPLE :: string where "ACCENT_PURPLE = ''#9b59b6''"
definition ACCENT_ORANGE :: string where "ACCENT_ORANGE = ''#f39c12''"
definition TEXT_COLOR :: string where "TEXT_COLOR = ''#ffffff''"
definition MUTED_COLOR :: string where "MUTED_COLOR = ''#8899a6''"
definition CARD_COLOR :: string where "CARD_COLOR = ''#192734''"
definition CARD_HIGHLIGHT :: string where "CARD_HIGHLIGHT = ''#1e3044''"
definition GLOBE_PATH :: string where
  "GLOBE_PATH = ''/home/rickc/OmniBazaar/UI Mockup/OmniBazaar Globe-clear-256x256.png''"
definition LOGO_PATH :: string where
  "LOGO_PATH = ''/home/rickc/OmniBazaar/OmniCoin-WhiteLetters1000x300.png''"

definition draw_hr :: "int \<Rightarrow> error + call" where
  \<comment> \<open>\<open>draw_hr(draw, y)\<close> with the default margin 80\<close>
  "draw_hr y = rectangle_call (80, y, WIDTH - 80, y + 1) MUTED_COLOR"

definition for_range :: "nat \<Rightarrow> (int \<Rightarrow> (error + call) list) \<Rightarrow> (error + call) list" where
  \<comment> \<open>a loop over \<open>n\<close> lines or items of which only the index matters\<close>
  "for_range n body = concat (map (\<lambda>k. body (int k)) [0..<n])"

definition cards :: "'a list \<Rightarrow> (int \<Rightarrow> 'a \<Rightarrow> (error + call) list) \<Rightarrow> (error + call) list" where
  \<comment> \<open>\<open>for i, item in enumerate(items)\<close>\<close>
  "cards items body = concat (map (\<lambda>(i, item). body (int i) item) (enumerate 0 items))"

subsection \<open>\<open>create_features_infographic.py\<close>\<close>

record fonts =
  f_title :: font
  f_brand :: font
  f_sect :: font
  f_lg :: font
  f_mb :: font
  f_m :: font
  f_n :: font
  f_sb :: font
  f_s :: font
  f_tb :: font
  f_t :: font
  f_apy :: font

definition default_fonts :: fonts where
  "default_fonts =
     \<lparr>f_title = DefaultFont, f_brand = DefaultFont, f_sect = DefaultFont, f_lg = DefaultFont,
      f_mb = DefaultFont, f_m = DefaultFont, f_n = DefaultFont, f_sb = DefaultFont,
      f_s = DefaultFont, f_tb = DefaultFont, f_t = DefaultFont, f_apy = DefaultFont\<rparr>"

definition load_fonts :: "env \<Rightarrow> fonts" where
  \<comment> \<open>the \<open>try\<close> block of twelve \<open>ImageFont.truetype\<close> calls and its \<open>except Exception\<close>\<close>
  "load_fonts e =
     (case
        and_then (truetype e Bold 52) (\<lambda>title.
        and_then (truetype e Bold 56) (\<lambda>brand.
        and_then (truetype e Bold 36) (\<lambda>sect.
        and_then (truetype e Bold 30) (\<lambda>lg.
        and_then (truetype e Bold 24) (\<lambda>mb.
        and_then (truetype e Regular 24) (\<lambda>m.
        and_then (truetype e Regular 20) (\<lambda>n.
        and_then (truetype e Bold 18) (\<lambda>sb.
        and_then (truetype e Regular 18) (\<lambda>s.
        and_then (truetype e Bold 15) (\<lambda>tb.
        and_then (truetype e Regular 15) (\<lambda>t.
        and_then (truetype e Bold 40) (\<lambda>apy.
        Inr \<lparr>f_title = title, f_brand = brand, f_sect = sect, f_lg = lg, f_mb = mb, f_m = m,
             f_n = n, f_sb = sb, f_s = s, f_tb = tb, f_t = t, f_apy = apy\<rparr>))))))))))))
      of Inr fs \<Rightarrow> fs | Inl ex \<Rightarrow> default_fonts)"

definition header :: "env \<Rightarrow> fonts \<Rightarrow> block" where
  \<comment> \<open>the globe and the brand name, or after any exception the brand name alone\<close>
  "header e fs y =
     (case and_then (image_open e GLOBE_PATH) (\<lambda>globe.
           and_then (text_bbox e (f_brand fs)) (\<lambda>brand_bbox. Inr (globe, brand_bbox)))
      of Inl ex \<Rightarrow>
           and_then (draw_text (WIDTH div 2, y + 40) Latin1 (f_brand fs) PRIMARY_COLOR MM) (\<lambda>t.
           Inr ([t], 120))
       | Inr (globe, bl, bt, br, bb) \<Rightarrow>
           let brand_w = br - bl; total_w = 90 + 16 + brand_w; gx = (WIDTH - total_w) div 2
           in (case draw_text (gx + 106, y + 18) Latin1 (f_brand fs) TEXT_COLOR No_anchor of
                 Inr t \<Rightarrow> Inr ([Paste globe (gx, y), t], 120)
               | Inl ex \<Rightarrow>
                   and_then (draw_text (WIDTH div 2, y + 40) Latin1 (f_brand fs) PRIMARY_COLOR MM) (\<lambda>t.
                   Inr ([Paste globe (gx, y), t], 120))))"

definition heading :: "font \<Rightarrow> charset \<Rightarrow> string \<Rightarrow> int \<Rightarrow> block" where
  \<comment> \<open>one centred line at the cursor\<close>
  "heading f s c a = draws (\<lambda>y. [draw_text (WIDTH div 2, y) s f c MM]) a"

definition hr :: block where
  "hr = draws (\<lambda>y. [draw_hr y]) 34"

definition key_stats :: "fonts \<Rightarrow> block" where
  "key_stats fs =
     draws (\<lambda>y.
       rounded_rect (40, y, WIDTH - 40, y + 78) 12 CARD_COLOR #
       (let sw = (WIDTH - 80) div 5
        in for_range 5 (\<lambda>i.
             let cx = 40 + sw * i + sw div 2
             in [draw_text (cx, y + 25) Latin1 (f_mb fs) PRIMARY_COLOR MM,
                 draw_text (cx, y + 54) Latin1 (f_t fs) MUTED_COLOR MM])))
       (96 + 14)"

definition markets :: "fonts \<Rightarrow> block" where
  \<comment> \<open>six cards: lines of the title, lines of the description, colour\<close>
  "markets fs =
     draws (\<lambda>y.
       let cw = (WIDTH - 80 - 5 * 12) div 6; ch = 192
       in cards [(2, 3, PRIMARY_COLOR), (1, 3, SECONDARY_COLOR), (1, 3, ACCENT_PURPLE),
                 (1, 3, ACCENT_ORANGE), (1, 3, ''#e74c3c''), (1, 3, ''#2ecc71'')]
            (\<lambda>i (tl, dl, color).
               let cx = 40 + i * (cw + 12)
               in [rounded_rect (cx, y, cx + cw, y + ch) 10 CARD_COLOR,
                   rounded_rect (cx, y, cx + cw, y + 5) 3 color]
                  @ for_range tl (\<lambda>k. [draw_text (cx + cw div 2, y + 22 + 20 * k) Latin1 (f_sb fs) color MM])
                  @ for_range dl (\<lambda>k.
                      [draw_text (cx + cw div 2, y + 22 + 20 * int tl + 8 + 19 * k) Latin1 (f_t fs)
                         TEXT_COLOR MM])
                  @ [draw_text (cx + cw div 2, y + ch - 16) Latin1 (f_tb fs) color MM]))
       (192 + 25)"

definition differentiators :: "fonts \<Rightarrow> block" where
  \<comment> \<open>three cards: lines of the title, bullets, colour\<close>
  "differentiators fs =
     draws (\<lambda>y.
       let dw = (WIDTH - 100 - 24) div 3; dh = 215
       in cards [(2, 5, PRIMARY_COLOR), (2, 5, ACCENT_PURPLE), (2, 5, SECONDARY_COLOR)]
            (\<lambda>i (tl, bullets, color).
               let cx = 50 + i * (dw + 12)
               in [rounded_rect (cx, y, cx + dw, y + dh) 12 CARD_COLOR]
                  @ for_range tl (\<lambda>k. [draw_text (cx + dw div 2, y + 22 + 22 * k) Latin1 (f_sb fs) color MM])
                  @ for_range bullets (\<lambda>k.
                      [draw_text (cx + 18, y + 22 + 22 * int tl + 10 + 22 * k) NonLatin1 (f_t fs)
                         TEXT_COLOR No_anchor])))
       (215 + 25)"

definition architecture :: "fonts \<Rightarrow> block" where
  "architecture fs =
     draws (\<lambda>y.
       let hw = (WIDTH - 110) div 2; bh = 260; lx = 40; rx = lx + hw + 30
       in [rounded_rect (lx, y, lx + hw, y + bh) 12 CARD_COLOR,
           draw_text (lx + hw div 2, y + 20) Latin1 (f_mb fs) PRIMARY_COLOR MM]
          @ for_range 7 (\<lambda>k. [draw_text (lx + 20, y + 48 + 26 * k) NonLatin1 (f_t fs) TEXT_COLOR No_anchor])
          @ [rounded_rect (rx, y, rx + hw, y + bh) 12 CARD_COLOR,
             draw_text (rx + hw div 2, y + 20) Latin1 (f_mb fs) SECONDARY_COLOR MM]
          @ for_range 7 (\<lambda>k. [draw_text (rx + 20, y + 48 + 26 * k) NonLatin1 (f_t fs) TEXT_COLOR No_anchor]))
       (260 + 25)"

definition wallet :: "fonts \<Rightarrow> block" where
  "wallet fs =
     draws (\<lambda>y.
       let wcw = (WIDTH - 80 - 36) div 4; wch = 150
       in cards [(1, 3, PRIMARY_COLOR), (2, 3, SECONDARY_COLOR), (2, 3, ACCENT_ORANGE),
                 (1, 3, ACCENT_PURPLE)]
            (\<lambda>i (tl, dl, color).
               let cx = 40 + i * (wcw + 12)
               in [rounded_rect (cx, y, cx + wcw, y + wch) 10 CARD_COLOR]
                  @ for_range tl (\<lambda>k. [draw_text (cx + wcw div 2, y + 18 + 20 * k) Latin1 (f_sb fs) color MM])
                  @ for_range dl (\<lambda>k.
                      [draw_text (cx + wcw div 2, y + 18 + 20 * int tl + 6 + 19 * k) Latin1 (f_t fs)
                         TEXT_COLOR MM])))
       (150 + 8)"

definition wallet_footnote :: "fonts \<Rightarrow> block" where
  "wallet_footnote fs = draws (\<lambda>y. [draw_text (WIDTH div 2, y + 8) NonLatin1 (f_t fs) MUTED_COLOR MM]) 35"

definition liquidity_subtitle :: "fonts \<Rightarrow> block" where
  "liquidity_subtitle fs = draws (\<lambda>y. [draw_text (WIDTH div 2, y + 20) Latin1 (f_t fs) MUTED_COLOR MM]) 48"

definition liquidity :: "fonts \<Rightarrow> block" where
  "liquidity fs =
     draws (\<lambda>y.
       let liq_w = (WIDTH - 100 - 24) div 3; liq_h = 200
       in cards [(4, PRIMARY_COLOR), (4, SECONDARY_COLOR), (4, ACCENT_PURPLE)]
            (\<lambda>i (bullets, color).
               let cx = 50 + i * (liq_w + 12)
               in [gradient_rect (cx, y, cx + liq_w, y + liq_h) CARD_HIGHLIGHT CARD_COLOR 12,
                   rounded_rect (cx, y, cx + liq_w, y + 5) 3 color,
                   draw_text (cx + liq_w div 2, y + 22) Latin1 (f_mb fs) color MM,
                   draw_text (cx + liq_w div 2, y + 44) Latin1 (f_t fs) MUTED_COLOR MM,
                   draw_text (cx + liq_w div 2, y + 78) Latin1 (f_lg fs) TEXT_COLOR MM]
                  @ for_range bullets (\<lambda>k.
                      [draw_text (cx + 16, y + 106 + 21 * k) NonLatin1 (f_t fs) TEXT_COLOR No_anchor])))
       (200 + 22)"

definition col_x :: "int list" where
  "col_x = [150, 430, 680, 950]"

definition staking_header :: "fonts \<Rightarrow> block" where
  "staking_header fs =
     draws (\<lambda>y.
       rounded_rect (60, y, WIDTH - 60, y + 32) 5 CARD_HIGHLIGHT #
       cards col_x (\<lambda>i x. [draw_text (x, y + 16) Latin1 (f_sb fs) MUTED_COLOR MM]))
       36"

definition staking_row :: "fonts \<Rightarrow> charset \<Rightarrow> block" where
  \<comment> \<open>one row of the table; only its first value differs from row to row\<close>
  "staking_row fs amount =
     draws (\<lambda>y.
       cards col_x (\<lambda>i x.
         let color = (if i = 3 then PRIMARY_COLOR else TEXT_COLOR)
         in [draw_text (x, y + 11) (if i = 0 then amount else Latin1) (f_s fs) color MM]))
       25"

definition gap :: "int \<Rightarrow> block" where
  \<comment> \<open>an update of the cursor with nothing drawn\<close>
  "gap a = draws (\<lambda>y. []) a"

definition revenue :: "fonts \<Rightarrow> block" where
  "revenue fs =
     draws (\<lambda>y.
       let ecw = (WIDTH - 80 - 48) div 5; ech = 105
       in cards [(2, PRIMARY_COLOR), (2, ''#2ecc71''), (2, ACCENT_ORANGE), (2, SECONDARY_COLOR),
                 (2, ACCENT_PURPLE)]
            (\<lambda>i (dl, color).
               let cx = 40 + i * (ecw + 12)
               in [gradient_rect (cx, y, cx + ecw, y + ech) color CARD_COLOR 10,
                   draw_text (cx + ecw div 2, y + 20) Latin1 (f_sb fs) TEXT_COLOR MM]
                  @ for_range dl (\<lambda>k.
                      [draw_text (cx + ecw div 2, y + 42 + 19 * k) Latin1 (f_t fs) TEXT_COLOR MM])))
       (105 + 25)"

definition coming_soon :: "fonts \<Rightarrow> block" where
  "coming_soon fs =
     draws (\<lambda>y.
       let sw2 = (WIDTH - 100 - 24) div 3; sh2 = 220
       in cards [(2, 6, ACCENT_ORANGE), (2, 6, SECONDARY_COLOR), (2, 6, PRIMARY_COLOR)]
            (\<lambda>i (tl, bullets, color).
               let cx = 50 + i * (sw2 + 12)
               in [rounded_rect (cx, y, cx + sw2, y + sh2) 12 CARD_COLOR]
                  @ for_range tl (\<lambda>k. [draw_text (cx + sw2 div 2, y + 22 + 22 * k) Latin1 (f_sb fs) color MM])
                  @ for_range bullets (\<lambda>k.
                      [draw_text (cx + 18, y + 22 + 22 * int tl + 8 + 24 * k) NonLatin1 (f_t fs)
                         TEXT_COLOR No_anchor])))
       (220 + 25)"

definition tokenomics :: "fonts \<Rightarrow> block" where
  "tokenomics fs =
     draws (\<lambda>y.
       rounded_rect (60, y, WIDTH - 60, y + 175) 12 CARD_COLOR #
       for_range 4 (\<lambda>k.
         [draw_text (90, y + 18 + 35 * k) Latin1 (f_sb fs) MUTED_COLOR No_anchor,
          draw_text (280, y + 18 + 35 * k) Latin1 (f_s fs) TEXT_COLOR No_anchor])
       @ for_range 4 (\<lambda>k.
         [draw_text (620, y + 18 + 35 * k) Latin1 (f_sb fs) MUTED_COLOR No_anchor,
          draw_text (840, y + 18 + 35 * k) Latin1 (f_s fs) TEXT_COLOR No_anchor]))
       195"

definition cta :: "fonts \<Rightarrow> block" where
  "cta fs =
     draws (\<lambda>y.
       [gradient_rect (200, y, WIDTH - 200, y + 55) PRIMARY_COLOR ''#009977'' 28,
        draw_text (WIDTH div 2, y + 27) Latin1 (f_mb fs) BACKGROUND_COLOR MM])
       75"

definition layout :: "env \<Rightarrow> fonts \<Rightarrow> block list" where
  "layout e fs =
     [header e fs,
      heading (f_title fs) Latin1 TEXT_COLOR 48,
      heading (f_n fs) Latin1 MUTED_COLOR 42,
      key_stats fs,
      heading (f_sect fs) Latin1 TEXT_COLOR 44,
      markets fs,
      hr,
      heading (f_sect fs) Latin1 TEXT_COLOR 48,
      differentiators fs,
      hr,
      heading (f_sect fs) Latin1 TEXT_COLOR 44,
      architecture fs,
      hr,
      heading (f_sect fs) Latin1 TEXT_COLOR 42,
      wallet fs,
      wallet_footnote fs,
      hr,
      heading (f_sect fs) Latin1 TEXT_COLOR 50,
      heading (f_mb fs) NonLatin1 PRIMARY_COLOR 10,
      liquidity_subtitle fs,
      liquidity fs,
      heading (f_mb fs) NonLatin1 ACCENT_ORANGE 32,
      staking_header fs,
      staking_row fs NonLatin1, staking_row fs NonLatin1, staking_row fs NonLatin1,
      staking_row fs NonLatin1, staking_row fs Latin1,
      gap 4,
      heading (f_t fs) NonLatin1 MUTED_COLOR 30,
      heading (f_mb fs) Latin1 TEXT_COLOR 32,
      revenue fs,
      hr,
      heading (f_sect fs) Latin1 TEXT_COLOR 44,
      coming_soon fs,
      hr,
      heading (f_sect fs) Latin1 TEXT_COLOR 40,
      tokenomics fs,
      cta fs,
      heading (f_t fs) Latin1 MUTED_COLOR 28,
      heading (f_t fs) Latin1 MUTED_COLOR 30]"

definition export :: "canvas \<Rightarrow> int \<Rightarrow> canvas" where
  \<comment> \<open>the crop before \<open>img.save\<close>: \<open>final_h = y + 10\<close>\<close>
  "export img y =
     (let final_h = y + 10
      in if final_h < HEIGHT then crop img (0, 0, WIDTH, final_h) else img)"

definition create_infographic :: "env \<Rightarrow> error + result" where
  "create_infographic e =
     and_then (hex_to_rgb BACKGROUND_COLOR) (\<lambda>bg.
     let fs = load_fonts e
     in and_then (run_blocks (layout e fs) \<lparr>cursor = 20, drawn = [], trace = [20]\<rparr>) (\<lambda>st.
        let img = \<lparr>cv_w = WIDTH, cv_h = HEIGHT, cv_background = bg, cv_calls = drawn st\<rparr>
        in Inr \<lparr>saved = export img (cursor st), working = img, cursors = trace st\<rparr>))"

subsection \<open>\<open>create_infographic.py\<close>\<close>

record fonts_yield =
  font_large :: font
  font_medium :: font
  font_normal :: font
  font_small :: font
  font_tiny :: font

definition default_fonts_yield :: fonts_yield where
  "default_fonts_yield =
     \<lparr>font_large = DefaultFont, font_medium = DefaultFont, font_normal = DefaultFont,
      font_small = DefaultFont, font_tiny = DefaultFont\<rparr>"

definition load_fonts_yield :: "env \<Rightarrow> fonts_yield" where
  \<comment> \<open>the \<open>try\<close> block of five \<open>ImageFont.truetype\<close> calls and its bare \<open>except\<close>\<close>
  "load_fonts_yield e =
     (case
        and_then (truetype e Bold 48) (\<lambda>large.
        and_then (truetype e Bold 32) (\<lambda>medium.
        and_then (truetype e Regular 24) (\<lambda>normal.
        and_then (truetype e Regular 20) (\<lambda>small.
        and_then (truetype e Regular 16) (\<lambda>tiny.
        Inr \<lparr>font_large = large, font_medium = medium, font_normal = normal,
             font_small = small, font_tiny = tiny\<rparr>)))))
      of Inr fs \<Rightarrow> fs | Inl ex \<Rightarrow> default_fonts_yield)"

definition header_yield :: "env \<Rightarrow> fonts_yield \<Rightarrow> block" where
  \<comment> \<open>the logo and 140, or after any exception the brand name and 120\<close>
  "header_yield e fs y =
     (case image_open e LOGO_PATH of
        Inr logo \<Rightarrow> let logo_x = (WIDTH - 400) div 2 in Inr ([Paste logo (logo_x, y)], 140)
      | Inl ex \<Rightarrow>
          and_then (draw_text (WIDTH div 2, y + 50) Latin1 (font_large fs) PRIMARY_COLOR MM) (\<lambda>t.
          Inr ([t], 120)))"

definition key_stats_yield :: "fonts_yield \<Rightarrow> block" where
  "key_stats_yield fs =
     draws (\<lambda>y.
       rounded_rect (50, y, WIDTH - 50, y + 80) 10 CARD_COLOR #
       (let stat_width = (WIDTH - 100) div 4
        in for_range 4 (\<lambda>i.
             let x = 50 + stat_width * i + stat_width div 2
             in [draw_text (x, y + 25) Latin1 (font_medium fs) PRIMARY_COLOR MM,
                 draw_text (x, y + 55) Latin1 (font_tiny fs) MUTED_COLOR MM])))
       100"

definition strategies :: "fonts_yield \<Rightarrow> block" where
  \<comment> \<open>three cards: number of details, colour\<close>
  "strategies fs =
     draws (\<lambda>y.
       let card_width = (WIDTH - 140) div 3; card_height = 280
       in cards [(4, PRIMARY_COLOR), (4, SECONDARY_COLOR), (4, ''#9b59b6'')]
            (\<lambda>i (details, color).
               let x = 50 + (card_width + 20) * i
               in [rounded_rect (x, y, x + card_width, y + card_height) 15 CARD_COLOR,
                   draw_text (x + card_width div 2, y + 30) Latin1 (font_medium fs) color MM,
                   draw_text (x + card_width div 2, y + 60) Latin1 (font_tiny fs) MUTED_COLOR MM,
                   draw_text (x + card_width div 2, y + 100) Latin1 (font_medium fs) TEXT_COLOR MM]
                  @ for_range details (\<lambda>j.
                      [draw_text (x + 20, y + 140 + j * 30) NonLatin1 (font_small fs) TEXT_COLOR No_anchor])))
       (280 + 30)"

definition timeline :: "fonts_yield \<Rightarrow> block" where
  "timeline fs =
     draws (\<lambda>y.
       let timeline_y = y + 20; phase_width = (WIDTH - 200) div 3
       in rectangle_call (100, timeline_y, WIDTH - 100, timeline_y + 4) MUTED_COLOR #
          for_range 3 (\<lambda>i.
            let x = 100 + phase_width * i + phase_width div 2
            in [ellipse_call (x - 8, timeline_y - 6, x + 8, timeline_y + 10) PRIMARY_COLOR,
                draw_text (x, timeline_y + 30) Latin1 (font_small fs) PRIMARY_COLOR MM,
                draw_text (x, timeline_y + 55) Latin1 (font_normal fs) TEXT_COLOR MM,
                draw_text (x, timeline_y + 80) Latin1 (font_tiny fs) MUTED_COLOR MM]))
       140"

definition table_header :: "fonts_yield \<Rightarrow> block" where
  "table_header fs =
     draws (\<lambda>y.
       rounded_rect (50, y, WIDTH - 50, y + 40) 5 CARD_COLOR #
       (let col_width = (WIDTH - 100) div 5
        in for_range 5 (\<lambda>i.
             let x = 50 + col_width * i + col_width div 2
             in [draw_text (x, y + 20) Latin1 (font_small fs) MUTED_COLOR MM])))
       45"

definition table_row :: "fonts_yield \<Rightarrow> block" where
  "table_row fs =
     draws (\<lambda>y.
       let col_width = (WIDTH - 100) div 5
       in for_range 5 (\<lambda>i.
            let x = 50 + col_width * i + col_width div 2;
                color = (if i = 4 then PRIMARY_COLOR else TEXT_COLOR)
            in [draw_text (x, y + 15) Latin1 (font_small fs) color MM]))
       35"

definition treasury :: "fonts_yield \<Rightarrow> block" where
  "treasury fs =
     draws (\<lambda>y.
       [rounded_rect (50, y, WIDTH - 50, y + 120) 15 CARD_COLOR,
        draw_text (WIDTH div 2, y + 25) Latin1 (font_normal fs) PRIMARY_COLOR MM,
        draw_text (WIDTH div 2, y + 60) Latin1 (font_small fs) TEXT_COLOR MM,
        draw_text (WIDTH div 2, y + 90) Latin1 (font_tiny fs) MUTED_COLOR MM])
       140"

definition components :: "fonts_yield \<Rightarrow> block" where
  "components fs =
     draws (\<lambda>y.
       let comp_width = (WIDTH - 100) div 4
       in for_range 4 (\<lambda>i.
            let x = 50 + comp_width * i + comp_width div 2
            in [draw_text (x, y) Latin1 (font_small fs) PRIMARY_COLOR MM,
                draw_text (x, y + 25) Latin1 (font_tiny fs) MUTED_COLOR MM]))
       70"

definition cta_yield :: "fonts_yield \<Rightarrow> block" where
  "cta_yield fs =
     draws (\<lambda>y.
       [rounded_rect (200, y, WIDTH - 200, y + 60) 30 PRIMARY_COLOR,
        draw_text (WIDTH div 2, y + 30) Latin1 (font_normal fs) BACKGROUND_COLOR MM])
       80"

definition layout_yield :: "env \<Rightarrow> fonts_yield \<Rightarrow> block list" where
  "layout_yield e fs =
     [header_yield e fs,
      heading (font_large fs) Latin1 TEXT_COLOR 60,
      heading (font_small fs) Latin1 MUTED_COLOR 50,
      key_stats_yield fs,
      strategies fs,
      heading (font_medium fs) Latin1 TEXT_COLOR 50,
      timeline fs,
      heading (font_medium fs) Latin1 TEXT_COLOR 40,
      table_header fs,
      table_row fs, table_row fs, table_row fs,
      gap 20,
      treasury fs,
      heading (font_medium fs) Latin1 TEXT_COLOR 40,
      components fs,
      cta_yield fs,
      heading (font_tiny fs) Latin1 MUTED_COLOR 30]"

definition disclaimer :: "fonts_yield \<Rightarrow> int \<Rightarrow> error + call" where
  \<comment> \<open>the last line, drawn at the final cursor; no update of the cursor follows it\<close>
  "disclaimer fs y = draw_text (WIDTH div 2, y) Latin1 (font_tiny fs) MUTED_COLOR MM"

definition create_infographic_yield :: "env \<Rightarrow> error + result" where
  "create_infographic_yield e =
     and_then (hex_to_rgb BACKGROUND_COLOR) (\<lambda>bg.
     let fs = load_fonts_yield e
     in and_then (run_blocks (layout_yield e fs) \<lparr>cursor = 30, drawn = [], trace = [30]\<rparr>) (\<lambda>st.
        and_then (disclaimer fs (cursor st)) (\<lambda>d.
        let img = \<lparr>cv_w = WIDTH, cv_h = HEIGHT_yield, cv_background = bg,
                   cv_calls = drawn st @ [d]\<rparr>
        in Inr \<lparr>saved = img, working = img, cursors = trace st\<rparr>)))"

subsection \<open>What the claims observe of a run\<close>

fun font_of :: "call \<Rightarrow> font option" where
  "font_of (Text xy s f fill a) = Some f"
| "font_of c = None"

definition fonts_used :: "call list \<Rightarrow> font list" where
  \<comment> \<open>the font of every text call, in order\<close>
  "fonts_used cs = List.map_filter font_of cs"

fun is_paste :: "call \<Rightarrow> bool" where
  "is_paste (Paste asset xy) = True"
| "is_paste c = False"

fun cursor_values :: "int \<Rightarrow> int list \<Rightarrow> int list" where
  \<comment> \<open>the values of a cursor that starts at \<open>c\<close> and is advanced by each amount in turn\<close>
  "cursor_values c [] = []"
| "cursor_values c (a # as) = (c + a) # cursor_values (c + a) as"

definition advances :: "int list" where
  \<comment> \<open>the amounts added to the cursor by \<open>create_features_infographic.py\<close>, in order\<close>
  "advances =
     [120, 48, 42, 96 + 14, 44, 192 + 25, 34, 48, 215 + 25, 34, 44, 260 + 25, 34, 42, 150 + 8,
      35, 34, 50, 10, 48, 200 + 22, 32, 36, 25, 25, 25, 25, 25, 4, 30, 32, 105 + 25, 34, 44,
      220 + 25, 34, 40, 195, 75, 28, 30]"

definition advances_yield :: "bool \<Rightarrow> int list" where
  \<comment> \<open>the same for \<open>create_infographic.py\<close>, with or without the logo\<close>
  "advances_yield logo =
     [if logo then 140 else 120, 60, 50, 100, 280 + 30, 50, 140, 40, 45, 35, 35, 35, 20, 140,
      40, 70, 80, 30]"

text \<open>
  For the proofs: a colour string that parses; a call that is no paste and whose font, if
  it has one, is among \<open>F\<close>; a block that returns at every cursor, advances by \<open>a\<close> and
  makes only such calls.
\<close>

definition parses :: "string \<Rightarrow> bool" where
  "parses c = (case hex_to_rgb c of Inl ex \<Rightarrow> False | Inr v \<Rightarrow> True)"

definition plain :: "font set \<Rightarrow> call \<Rightarrow> bool" where
  "plain F c = ((case font_of c of None \<Rightarrow> True | Some f \<Rightarrow> f \<in> F) \<and> \<not> is_paste c)"

definition fine :: "font set \<Rightarrow> error + call \<Rightarrow> bool" where
  "fine F x = (case x of Inl ex \<Rightarrow> False | Inr c \<Rightarrow> plain F c)"

definition block_ok :: "font set \<Rightarrow> int \<Rightarrow> block \<Rightarrow> bool" where
  "block_ok F a b = (\<forall>y. \<exists>cs. b y = Inr (cs, a) \<and> list_all (plain F) cs)"

definition fonts_of :: "fonts \<Rightarrow> font set" where
  "fonts_of fs =
     {f_title fs, f_brand fs, f_sect fs, f_lg fs, f_mb fs, f_m fs, f_n fs, f_sb fs, f_s fs,
      f_tb fs, f_t fs, f_apy fs}"

definition fonts_of_yield :: "fonts_yield \<Rightarrow> font set" where
  "fonts_of_yield fs =
     {font_large fs, font_medium fs, font_normal fs, font_small fs, font_tiny fs}"

fun within_half :: "call \<Rightarrow> bool" where
  \<comment> \<open>a rounded rectangle whose radius is at most half of both sides\<close>
  "within_half (RoundedRect (x1, y1, x2, y2) r fill) =
     (0 \<le> r \<and> r \<le> (x2 - x1) div 2 \<and> r \<le> (y2 - y1) div 2)"
| "within_half c = True"

fun radius_as_claimed :: "call \<Rightarrow> bool" where
  \<comment> \<open>a rounded rectangle whose requested radius is the radius of the specification\<close>
  "radius_as_claimed (RoundedRect b r fill) = (of_int r = claimed_radius b r)"
| "radius_as_claimed c = True"

text \<open>
  For the proofs: a property of the call an element of a block makes, if it returns; a
  block all of whose calls have a property.
\<close>

definition holds :: "(call \<Rightarrow> bool) \<Rightarrow> error + call \<Rightarrow> bool" where
  "holds P x = (case x of Inl ex \<Rightarrow> True | Inr c \<Rightarrow> P c)"

definition every_call :: "(call \<Rightarrow> bool) \<Rightarrow> block \<Rightarrow> bool" where
  "every_call P b = (\<forall>y cs a. b y = Inr (cs, a) \<longrightarrow> list_all P cs)"

subsection \<open>The text rendering of the library\<close>

text \<open>
  \<open>draw.text\<close> with a TrueType font returns for every string.  The default font,
  \<open>ImageFont.load_default()\<close>, is a scalable font in Pillow 10.1 and later when the
  library is built with FreeType; before that, and in any build without FreeType, it is a
  bitmap font whose glyphs are those of Latin-1, and drawing a string with any other
  character raises \<open>UnicodeEncodeError\<close>.  Neither script catches it: the run stops at the
  first such call and nothing is saved.
\<close>

fun raises :: "env \<Rightarrow> call \<Rightarrow> bool" where
  \<comment> \<open>the call is a \<open>draw.text\<close> that raises \<open>UnicodeEncodeError\<close>\<close>
  "raises e (Text xy s f fill a) = (bitmap_default e \<and> f = DefaultFont \<and> s = NonLatin1)"
| "raises e c = False"

definition rendered :: "env \<Rightarrow> error + result \<Rightarrow> error + result" where
  "rendered e run =
     and_then run (\<lambda>r.
       if list_ex (raises e) (cv_calls (working r)) then Inl UnicodeEncodeError else Inr r)"

definition main :: "env \<Rightarrow> error + result" where
  \<comment> \<open>a run of \<open>create_features_infographic.py\<close>\<close>
  "main e = rendered e (create_infographic e)"

definition main_yield :: "env \<Rightarrow> error + result" where
  \<comment> \<open>a run of \<open>create_infographic.py\<close>\<close>
  "main_yield e = rendered e (create_infographic_yield e)"

definition may_raise :: "env \<Rightarrow> error + call \<Rightarrow> bool" where
  \<comment> \<open>for the proofs: an element of a block that returns a call that raises\<close>
  "may_raise e x = (case x of Inl ex \<Rightarrow> False | Inr c \<Rightarrow> raises e c)"

section \<open>Concrete inputs\<close>

text \<open>
  A small canvas and the accent bar of a market card (a box five pixels high, requested
  radius 3) on it, for evaluating the definitions.
\<close>

definition canvas30 :: "int image" where
  "canvas30 = \<lparr>img_w = 30, img_h = 12, img_px = (\<lambda>p. 0)\<rparr>"

definition accent_bar :: "int image" where
  "accent_bar =
     fill_region (ideal_ellipse (16, 1, 20, 5)) 1
       (fill_region (ideal_ellipse (0, 1, 4, 5)) 1
       (fill_region (ideal_ellipse (16, 0, 20, 4)) 1
       (fill_region (ideal_ellipse (0, 0, 4, 4)) 1
       (fill_region (in_rect (0, 2, 20, 3)) 1
       (fill_region (in_rect (2, 0, 18, 5)) 1 canvas30)))))"

text \<open>The gradient buffer of a box one pixel high, from black to white.\<close>

definition single_row :: "rgba image" where
  "single_row =
     fold (gradient_row (0, 0, 0) (255, 255, 255) 1 3) [0..1 - 1]
       \<lparr>img_w = 3, img_h = 1, img_px = (\<lambda>p. (0, 0, 0, 0))\<rparr>"

text \<open>
  The first card of the liquidity programme in \<open>create_features_infographic.py\<close>:
  \<open>draw_gradient_rect(img, (50, 1697, 408, 1897), CARD_HIGHLIGHT, CARD_COLOR, radius=12)\<close>
  on the canvas of 1200 by 3200 pixels in the background colour.
\<close>

definition canvas_features :: "rgb image" where
  "canvas_features = \<lparr>img_w = 1200, img_h = 3200, img_px = (\<lambda>p. (15, 20, 25))\<rparr>"

definition card_gradient :: "rgba image" where
  "card_gradient =
     fold (gradient_row (30, 48, 68) (25, 39, 52) 200 358) [0..200 - 1]
       \<lparr>img_w = 358, img_h = 200, img_px = (\<lambda>p. (0, 0, 0, 0))\<rparr>"

definition card_mask :: "int image" where
  "card_mask =
     fill_region (ideal_ellipse (334, 176, 358, 200)) 255
       (fill_region (ideal_ellipse (0, 176, 24, 200)) 255
       (fill_region (ideal_ellipse (334, 0, 358, 24)) 255
       (fill_region (ideal_ellipse (0, 0, 24, 24)) 255
       (fill_region (in_rect (0, 12, 358, 188)) 255
       (fill_region (in_rect (12, 0, 346, 200)) 255
          \<lparr>img_w = 358, img_h = 200, img_px = (\<lambda>p. 0)\<rparr>)))))"

definition card_pasted :: "rgb image" where
  "card_pasted = paste canvas_features (putalpha card_gradient card_mask) (50, 1697)"

text \<open>
  Three environments: one where every file opens and the brand name measures 350 by 43
  pixels; one where the regular font file and both images are missing, under a library
  whose default font is scalable; and one where the font files are missing and the default
  font is the bitmap font.
\<close>

definition env_ok :: env where
  "env_ok = \<lparr>font_file = (\<lambda>f. True), image_file = (\<lambda>p. True),
             text_bbox = (\<lambda>f. Inr (2, 11, 352, 54)), bitmap_default = False\<rparr>"

definition env_bad :: env where
  "env_bad = \<lparr>font_file = (\<lambda>f. f = Bold), image_file = (\<lambda>p. False),
              text_bbox = (\<lambda>f. Inl ValueError), bitmap_default = False\<rparr>"

definition env_bitmap :: env where
  "env_bitmap = \<lparr>font_file = (\<lambda>f. False), image_file = (\<lambda>p. True),
                 text_bbox = (\<lambda>f. Inl ValueError), bitmap_default = True\<rparr>"

definition features_run :: result where
  "features_run = projr (create_infographic env_ok)"

definition yield_run :: result where
  "yield_run = projr (create_infographic_yield env_ok)"

definition features_fallback :: result where
  "features_fallback = projr (create_infographic env_bad)"

definition yield_fallback :: result where
  "yield_fallback = projr (create_infographic_yield env_bad)"

section \<open>Properties of the colour utility\<close>

subsection \<open>Parsing hexadecimal digit pairs\<close>

lemma hex_value_range: "hex_value c = Some d \<Longrightarrow> 0 \<le> d \<and> d < 16"
  by (auto simp: hex_value_def digit_value_def Let_def split: if_splits option.splits)

lemma hex_value_special:
  "hex_value (CHR ''+'') = None" "hex_value (CHR ''-'') = None" "hex_value (CHR ''_'') = None"
  "hex_value (CHR ''x'') = None" "hex_value (CHR ''X'') = None" "hex_value (CHR ''#'') = None"
  by (simp_all add: hex_value_def digit_value_def)

lemma hex_value_space: "py_isspace c \<Longrightarrow> hex_value c = None"
  by (auto simp: py_isspace_def hex_value_def digit_value_def)

lemma hex_not_special:
  assumes "hex_value c = Some d"
  shows "c \<noteq> CHR ''+''" "c \<noteq> CHR ''-''" "c \<noteq> CHR ''_''" "c \<noteq> CHR ''x''" "c \<noteq> CHR ''X''"
    "c \<noteq> CHR ''#''" "\<not> py_isspace c"
  using assms hex_value_special hex_value_space by auto

lemma py_int16_pair:
  assumes a: "hex_value a = Some x" and b: "hex_value b = Some y"
  shows "py_int16 [a, b] = Inr (16 * x + y)"
proof -
  have 1: "dropWhile py_isspace [a, b] = [a, b]"
    using hex_not_special(7)[OF a] by simp
  have 2: "skip_sign [a, b] = (1, [a, b])"
    using hex_not_special(1,2)[OF a] by (simp add: skip_sign_def)
  have 3: "skip_prefix [a, b] = [a, b]"
    using hex_not_special(4,5)[OF b] by (simp add: skip_prefix_def)
  have 4: "scan_digits [a, b] (CHR 0x00) 0 0 = Some ([], 16 * x + y, 2)"
    using hex_not_special(3)[OF a] hex_not_special(3)[OF b] a b by (simp add: numeral_2_eq_2)
  show ?thesis
    unfolding py_int16_def 1 2
    using hex_not_special(3)[OF a] by (simp add: 3 4 del: scan_digits.simps)
qed

lemma hex6_list:
  assumes "hex6 d"
  obtains a b c e f g where "d = [a, b, c, e, f, g]"
    "is_hex a" "is_hex b" "is_hex c" "is_hex e" "is_hex f" "is_hex g"
proof -
  from assms have len: "length d = 6" and all: "list_all is_hex d" by (simp_all add: hex6_def)
  from len obtain a b c e f g where d: "d = [a, b, c, e, f, g]"
    by (auto simp: length_Suc_conv numeral_eq_Suc)
  with all that show thesis by simp
qed

lemma lstrip_hashes:
  assumes "is_hex a"
  shows "lstrip (CHR ''#'') (replicate k (CHR ''#'') @ a # r) = a # r"
proof -
  from assms obtain x where "hex_value a = Some x" by (auto simp: is_hex_def)
  then have "a \<noteq> CHR ''#''" by (rule hex_not_special)
  then show ?thesis by (induction k) (simp_all add: lstrip_def)
qed

lemma pair_value_eq: "hex_value a = Some x \<Longrightarrow> hex_value b = Some y \<Longrightarrow> pair_value a b = 16 * x + y"
  by (simp add: pair_value_def)

lemma py_int16_hex_pair:
  assumes "is_hex a" "is_hex b"
  shows "py_int16 [a, b] = Inr (pair_value a b)"
proof -
  from assms obtain x y where "hex_value a = Some x" "hex_value b = Some y"
    by (auto simp: is_hex_def)
  then show ?thesis by (simp add: py_int16_pair pair_value_eq)
qed

lemma hex_to_rgb_digits:
  assumes "is_hex a" "is_hex b" "is_hex c" "is_hex e" "is_hex f" "is_hex g"
  shows "hex_to_rgb (replicate k (CHR ''#'') @ [a, b, c, e, f, g])
         = Inr (pair_value a b, pair_value c e, pair_value f g)"
proof -
  have "lstrip (CHR ''#'') (replicate k (CHR ''#'') @ [a, b, c, e, f, g]) = [a, b, c, e, f, g]"
    using lstrip_hashes[OF assms(1)] by simp
  then show ?thesis
    by (simp add: hex_to_rgb_def slice2_def py_int16_hex_pair assms)
qed

lemma pair_value_channel:
  assumes "is_hex a" "is_hex b"
  shows "channel (pair_value a b)"
proof -
  from assms obtain x y where xy: "hex_value a = Some x" "hex_value b = Some y"
    by (auto simp: is_hex_def)
  from hex_value_range[OF xy(1)] hex_value_range[OF xy(2)] show ?thesis
    by (simp add: pair_value_eq[OF xy] channel_def)
qed

lemma nat_shift: "48 \<le> n \<Longrightarrow> 48 + nat (int n - 48) = n" "97 \<le> n \<Longrightarrow> 87 + nat (int n - 87) = n"
  by arith+

lemma hex_char_value: "hex_value c = Some d \<Longrightarrow> hex_char d = lower c"
  by (auto simp: hex_value_def digit_value_def hex_char_def lower_def Let_def nat_add_distrib
           nat_shift split: if_splits)

lemma hex2_pair:
  assumes "is_hex a" "is_hex b"
  shows "hex2 (pair_value a b) = [lower a, lower b]"
proof -
  from assms obtain x y where xy: "hex_value a = Some x" "hex_value b = Some y"
    by (auto simp: is_hex_def)
  from hex_value_range[OF xy(1)] hex_value_range[OF xy(2)]
  have "(16 * x + y) div 16 = x" "(16 * x + y) mod 16 = y" by auto
  then show ?thesis
    by (simp add: hex2_def pair_value_eq[OF xy] hex_char_value[OF xy(1)] hex_char_value[OF xy(2)])
qed

subsection \<open>Results on arbitrary strings\<close>

lemma scan_digits_bound:
  "scan_digits s p acc n = Some (rest, v, m) \<Longrightarrow> 0 \<le> acc \<Longrightarrow>
     0 \<le> v \<and> v < (acc + 1) * 16 ^ length s"
proof (induction s arbitrary: p acc n)
  case Nil
  then show ?case by (simp split: if_splits)
next
  case (Cons c cs)
  show ?case
  proof (cases "c = CHR ''_''")
    case True
    with Cons.prems have "scan_digits cs c acc n = Some (rest, v, m)"
      by (simp split: if_splits)
    from Cons.IH[OF this Cons.prems(2)] have "0 \<le> v" "v < (acc + 1) * 16 ^ length cs" by simp_all
    moreover have "(acc + 1) * 16 ^ length cs \<le> (acc + 1) * 16 ^ length (c # cs)"
      using Cons.prems(2) by simp
    ultimately show ?thesis by linarith
  next
    case False
    show ?thesis
    proof (cases "hex_value c")
      case None
      with False Cons.prems have "v = acc" by (simp split: if_splits)
      moreover have "acc < (acc + 1) * 16 ^ length (c # cs)"
      proof -
        have "(1::int) \<le> 16 ^ length (c # cs)" by (rule one_le_power) simp
        then have "(acc + 1) * 1 \<le> (acc + 1) * 16 ^ length (c # cs)"
          using Cons.prems(2) by (intro mult_left_mono) simp_all
        then show ?thesis by simp
      qed
      ultimately show ?thesis using Cons.prems(2) by simp
    next
      case (Some d)
      with False Cons.prems have *: "scan_digits cs c (acc * 16 + d) (Suc n) = Some (rest, v, m)"
        by simp
      from hex_value_range[OF Some] have d: "0 \<le> d" "d < 16" by simp_all
      with Cons.prems(2) have "0 \<le> acc * 16 + d" by simp
      from Cons.IH[OF * this] have "0 \<le> v" "v < (acc * 16 + d + 1) * 16 ^ length cs" by simp_all
      moreover have "(acc * 16 + d + 1) * 16 ^ length cs \<le> ((acc + 1) * 16) * 16 ^ length cs"
        using d by (intro mult_right_mono) simp_all
      moreover have "((acc + 1) * 16) * 16 ^ length cs = (acc + 1) * 16 ^ length (c # cs)"
        by simp
      ultimately show ?thesis by linarith
    qed
  qed
qed

lemma skip_sign_props:
  "skip_sign s = (sg, r) \<Longrightarrow> (sg = 1 \<or> sg = - 1) \<and> length r \<le> length s"
  by (auto simp: skip_sign_def split: list.splits if_splits)

lemma skip_prefix_length: "length (skip_prefix s) \<le> length s"
  by (auto simp: skip_prefix_def split: list.splits)

lemma py_int16_error: "py_int16 t = Inl e \<Longrightarrow> e = ValueError"
  by (cases e) (auto simp: py_int16_def Let_def split: if_splits option.splits prod.splits)

lemma py_int16_bound:
  assumes "py_int16 s = Inr v" "length s \<le> 2"
  shows "\<bar>v\<bar> \<le> 255"
proof -
  obtain sg s2 where sk: "skip_sign (dropWhile py_isspace s) = (sg, s2)" by fastforce
  from skip_sign_props[OF sk] have sg: "sg = 1 \<or> sg = - 1"
    and l2: "length s2 \<le> length (dropWhile py_isspace s)" by simp_all
  have "length (dropWhile py_isspace s) \<le> length s" by (rule length_dropWhile_le)
  with l2 assms(2) skip_prefix_length[of s2] have l3: "length (skip_prefix s2) \<le> 2" by linarith
  define s3 where "s3 = skip_prefix s2"
  have eq: "py_int16 s =
     (if s3 \<noteq> [] \<and> hd s3 = CHR ''_'' then Inl ValueError
      else case scan_digits s3 (CHR 0x00) 0 0 of
             None \<Rightarrow> Inl ValueError
           | Some (rest, w, n) \<Rightarrow>
               if n = 0 then Inl ValueError
               else if dropWhile py_isspace rest \<noteq> [] then Inl ValueError
               else Inr (sg * w))"
    by (simp add: py_int16_def sk s3_def)
  from assms(1) obtain rest w n where
    sc: "scan_digits s3 (CHR 0x00) 0 0 = Some (rest, w, n)" and v: "v = sg * w"
    unfolding eq by (auto split: if_splits option.splits)
  from scan_digits_bound[OF sc] have "0 \<le> w" "w < 16 ^ length s3" by simp_all
  moreover have "(16::int) ^ length s3 \<le> 16 ^ 2"
    using l3 unfolding s3_def by (intro power_increasing) simp_all
  ultimately have "0 \<le> w" "w \<le> 255" by simp_all
  with sg v show ?thesis by auto
qed

lemma hex_to_rgb_cases:
  "hex_to_rgb s = Inl ValueError \<or>
   (\<exists>r g b. hex_to_rgb s = Inr (r, g, b) \<and> \<bar>r\<bar> \<le> 255 \<and> \<bar>g\<bar> \<le> 255 \<and> \<bar>b\<bar> \<le> 255)"
proof -
  define h where "h = lstrip (CHR ''#'') s"
  have len: "length (slice2 h i) \<le> 2" for i by (simp add: slice2_def)
  have eq: "hex_to_rgb s = (case py_int16 (slice2 h 0) of
           Inl e \<Rightarrow> Inl e
         | Inr r \<Rightarrow>
            (case py_int16 (slice2 h 2) of
               Inl e \<Rightarrow> Inl e
             | Inr g \<Rightarrow>
                (case py_int16 (slice2 h 4) of
                   Inl e \<Rightarrow> Inl e
                 | Inr b \<Rightarrow> Inr (r, g, b))))"
    unfolding hex_to_rgb_def h_def Let_def ..
  show ?thesis
  proof (cases "py_int16 (slice2 h 0)")
    case (Inl e)
    with py_int16_error[OF Inl] show ?thesis by (simp add: eq)
  next
    case r: (Inr r)
    show ?thesis
    proof (cases "py_int16 (slice2 h 2)")
      case (Inl e)
      with py_int16_error[OF Inl] r show ?thesis by (simp add: eq)
    next
      case g: (Inr g)
      show ?thesis
      proof (cases "py_int16 (slice2 h 4)")
        case (Inl e)
        with py_int16_error[OF Inl] r g show ?thesis by (simp add: eq)
      next
        case b: (Inr b)
        from py_int16_bound[OF r len] py_int16_bound[OF g len] py_int16_bound[OF b len] r g b
        show ?thesis by (simp add: eq)
      qed
    qed
  qed
qed

lemma lstrip_idem_take: "lstrip c (take n (lstrip c s)) = take n (lstrip c s)"
proof (cases "lstrip c s")
  case Nil
  show ?thesis unfolding Nil by (simp add: lstrip_def)
next
  case (Cons x xs)
  then have "x \<noteq> c" unfolding lstrip_def by (metis (full_types) hd_dropWhile list.sel(1) list.distinct(1))
  then show ?thesis unfolding Cons by (cases n) (simp_all add: lstrip_def)
qed

lemma hex_to_rgb_take6: "hex_to_rgb s = hex_to_rgb (take 6 (lstrip (CHR ''#'') s))"
proof -
  define h where "h = lstrip (CHR ''#'') s"
  have 1: "lstrip (CHR ''#'') (take 6 h) = take 6 h"
    unfolding h_def by (rule lstrip_idem_take)
  have 2: "slice2 (take 6 h) 0 = slice2 h 0" "slice2 (take 6 h) 2 = slice2 h 2"
    "slice2 (take 6 h) 4 = slice2 h 4"
    by (simp_all add: slice2_def drop_take)
  show ?thesis unfolding hex_to_rgb_def[of s] hex_to_rgb_def[of "take 6 (lstrip (CHR ''#'') s)"]
    unfolding h_def[symmetric] 1 2 Let_def ..
qed

section \<open>Properties of the floating-point model\<close>

lemma rne_of_int: "rne (of_int k) = k"
  by (simp add: rne_def)

lemma rne_bounds: "\<lfloor>x\<rfloor> \<le> rne x \<and> rne x \<le> \<lfloor>x\<rfloor> + 1"
  by (simp add: rne_def Let_def)

lemma rne_mono:
  assumes "x \<le> y"
  shows "rne x \<le> rne y"
proof (cases "\<lfloor>x\<rfloor> = \<lfloor>y\<rfloor>")
  case True
  with assms have "x - of_int \<lfloor>x\<rfloor> \<le> y - of_int \<lfloor>y\<rfloor>" by simp
  with True show ?thesis by (auto simp: rne_def Let_def)
next
  case False
  with assms have "\<lfloor>x\<rfloor> + 1 \<le> \<lfloor>y\<rfloor>" using floor_mono[OF assms] by linarith
  with rne_bounds[of x] rne_bounds[of y] show ?thesis by linarith
qed

lemma rne_minus: "rne (- x) = - rne x"
proof (cases "x \<in> \<int>")
  case True
  then obtain k where "x = of_int k" by (auto elim: Ints_cases)
  then have "- x = of_int (- k)" by simp
  then show ?thesis unfolding \<open>x = of_int k\<close> by (simp only: rne_of_int)
next
  case False
  then have ne: "x \<noteq> of_int \<lfloor>x\<rfloor>" by (metis Ints_of_int)
  have fr: "x - of_int \<lfloor>x\<rfloor> < 1" "0 \<le> x - of_int \<lfloor>x\<rfloor>" by linarith+
  have "of_int \<lfloor>x\<rfloor> \<le> x" by (rule of_int_floor_le)
  with ne have fr0: "0 < x - of_int \<lfloor>x\<rfloor>" by linarith
  have f: "\<lfloor>- x\<rfloor> = - \<lfloor>x\<rfloor> - 1"
    by (rule floor_unique) (use fr fr0 in simp_all)
  define d where "d = x - of_int \<lfloor>x\<rfloor>"
  have nx: "- x - of_int (- \<lfloor>x\<rfloor> - 1) = 1 - d" by (simp add: d_def)
  have ev: "even (- \<lfloor>x\<rfloor> - 1) \<longleftrightarrow> odd \<lfloor>x\<rfloor>" by simp
  have "rne (- x) = (if 1 - d < 1 / 2 then - \<lfloor>x\<rfloor> - 1 else if 1 / 2 < 1 - d then - \<lfloor>x\<rfloor>
          else if odd \<lfloor>x\<rfloor> then - \<lfloor>x\<rfloor> - 1 else - \<lfloor>x\<rfloor>)"
    unfolding rne_def Let_def f nx ev by simp
  moreover have "rne x = (if d < 1 / 2 then \<lfloor>x\<rfloor> else if 1 / 2 < d then \<lfloor>x\<rfloor> + 1
          else if even \<lfloor>x\<rfloor> then \<lfloor>x\<rfloor> else \<lfloor>x\<rfloor> + 1)"
    unfolding rne_def Let_def d_def by simp
  ultimately show ?thesis by (auto split: if_splits)
qed

lemma ilog2_bracket:
  assumes "0 < x"
  shows "2 powi ilog2 x \<le> x \<and> x < 2 powi (ilog2 x + 1)"
proof -
  obtain a b where q: "quotient_of x = (a, b)" by fastforce
  then have b: "0 < b" and x: "x = of_int a / of_int b"
    by (simp_all add: quotient_of_denom_pos quotient_of_div)
  with assms have a: "0 < a" by (simp add: zero_less_divide_iff)
  define la lb where "la = bitlen a" and "lb = bitlen b"
  from bitlen_bounds[OF a] have la: "2 ^ nat (la - 1) \<le> a" "a < 2 ^ nat la" by (simp_all add: la_def)
  from bitlen_bounds[OF b] have lb: "2 ^ nat (lb - 1) \<le> b" "b < 2 ^ nat lb" by (simp_all add: lb_def)
  have la1: "1 \<le> la" using a by (simp add: la_def bitlen_alt_def)
  have lb1: "1 \<le> lb" using b by (simp add: lb_def bitlen_alt_def)
  define A B :: rat where "A = of_int a" and "B = of_int b"
  have pw: "(2::rat) powi k = of_int (2 ^ nat k)" if "0 \<le> k" for k
    using that by (simp add: power_int_nonneg_exp)
  have A: "2 powi (la - 1) \<le> A" "A < 2 powi la"
    unfolding A_def using la la1 by (simp_all only: pw of_int_le_iff of_int_less_iff)
  have B: "2 powi (lb - 1) \<le> B" "B < 2 powi lb"
    unfolding B_def using lb lb1 by (simp_all only: pw of_int_le_iff of_int_less_iff)
  have Bpos: "0 < B" using b by (simp add: B_def)
  define e where "e = la - lb"
  have up: "x < 2 powi (e + 1)"
  proof -
    have "A < 2 powi (e + 1) * 2 powi (lb - 1)"
      using A(2) by (simp add: e_def power_int_add[symmetric])
    also have "\<dots> \<le> 2 powi (e + 1) * B"
      using B(1) by (intro mult_left_mono) simp_all
    finally show ?thesis using Bpos by (simp add: x A_def[symmetric] B_def[symmetric] pos_divide_less_eq)
  qed
  have lo: "2 powi (e - 1) \<le> x"
  proof -
    have "2 powi (e - 1) * B \<le> 2 powi (e - 1) * 2 powi lb"
      using B(2) by (intro mult_left_mono) simp_all
    also have "\<dots> = 2 powi (la - 1)" by (simp add: e_def power_int_add[symmetric])
    also have "\<dots> \<le> A" by (rule A(1))
    finally show ?thesis using Bpos by (simp add: x A_def[symmetric] B_def[symmetric] pos_le_divide_eq)
  qed
  have il: "ilog2 x = (if 2 powi e \<le> x then e else e - 1)"
    by (simp add: ilog2_def q e_def la_def lb_def)
  show ?thesis
  proof (cases "2 powi e \<le> x")
    case True
    with up il show ?thesis by simp
  next
    case False
    with lo il show ?thesis by simp
  qed
qed

subsection \<open>Rounding is monotone and exact on small integers\<close>

lemma round_double_zero: "round_double 0 = 0"
  by (simp add: round_double_def)

lemma round_double_eq:
  assumes "x \<noteq> 0"
  shows "round_double x = of_int (rne (x / 2 powi (max (ilog2 \<bar>x\<bar>) (- 1022) - 52)))
           * 2 powi (max (ilog2 \<bar>x\<bar>) (- 1022) - 52)"
  using assms by (simp add: round_double_def Let_def)

lemma round_double_minus: "round_double (- x) = - round_double x"
proof (cases "x = 0")
  case True
  then show ?thesis by (simp add: round_double_zero)
next
  case False
  then have "- x \<noteq> 0" by simp
  from round_double_eq[OF this] round_double_eq[OF False] show ?thesis
    by (simp add: rne_minus)
qed

lemma ilog2_mono:
  assumes "0 < x" "x \<le> y"
  shows "ilog2 x \<le> ilog2 y"
proof (rule ccontr)
  assume "\<not> ilog2 x \<le> ilog2 y"
  then have "ilog2 y + 1 \<le> ilog2 x" by simp
  then have "(2::rat) powi (ilog2 y + 1) \<le> 2 powi ilog2 x"
    by (intro power_int_increasing) simp_all
  moreover from assms have "0 < y" by simp
  ultimately show False
    using ilog2_bracket[OF assms(1)] ilog2_bracket[OF \<open>0 < y\<close>] assms(2) by linarith
qed

lemma pow2_int: "0 \<le> k \<Longrightarrow> (2::rat) powi k = of_int (2 ^ nat k)"
  by (simp add: power_int_nonneg_exp)

lemma round_double_pos_mono:
  assumes "0 < x" "x \<le> y"
  shows "round_double x \<le> round_double y"
proof -
  from assms have ypos: "0 < y" by simp
  define ex ey where "ex = max (ilog2 x) (- 1022)" and "ey = max (ilog2 y) (- 1022)"
  define qx qy :: rat where "qx = 2 powi (ex - 52)" and "qy = 2 powi (ey - 52)"
  have qpos: "0 < qx" "0 < qy" by (simp_all add: qx_def qy_def)
  have rx: "round_double x = of_int (rne (x / qx)) * qx"
    using round_double_eq[of x] assms(1) by (simp add: qx_def ex_def)
  have ry: "round_double y = of_int (rne (y / qy)) * qy"
    using round_double_eq[of y] ypos by (simp add: qy_def ey_def)
  have ee: "ex \<le> ey" using ilog2_mono[OF assms] by (simp add: ex_def ey_def)
  show ?thesis
  proof (cases "ex = ey")
    case True
    then have "qx = qy" by (simp add: qx_def qy_def)
    moreover have "x / qy \<le> y / qy" using assms(2) qpos by (simp add: divide_right_mono)
    ultimately show ?thesis
      unfolding rx ry using rne_mono qpos by (simp add: mult_right_mono)
  next
    case False
    with ee have lt: "ex < ey" by simp
    then have ey: "ey = ilog2 y" by (auto simp: ex_def ey_def)
    define B :: rat where "B = 2 powi ey"
    have "x < 2 powi (ilog2 x + 1)" using ilog2_bracket[OF assms(1)] by simp
    also have "\<dots> \<le> 2 powi (ex + 1)" by (intro power_int_increasing) (simp_all add: ex_def)
    also have "\<dots> \<le> B" unfolding B_def using lt by (intro power_int_increasing) simp_all
    finally have xB: "x \<le> B" by simp
    have By: "B \<le> y" unfolding B_def ey using ilog2_bracket[OF ypos] by simp
    have Bx: "B / qx = of_int (2 ^ nat (ey - ex + 52))"
    proof -
      have "B / qx = 2 powi (ey - (ex - 52))"
        unfolding B_def qx_def by (simp add: power_int_diff)
      also have "\<dots> = of_int (2 ^ nat (ey - ex + 52))"
        using lt by (subst pow2_int) (simp_all add: algebra_simps)
      finally show ?thesis .
    qed
    have Byq: "B / qy = of_int (2 ^ 52)"
    proof -
      have "B / qy = 2 powi (ey - (ey - 52))"
        unfolding B_def qy_def by (simp add: power_int_diff)
      then show ?thesis by simp
    qed
    have "x / qx \<le> B / qx" using xB qpos by (simp add: divide_right_mono)
    then have "rne (x / qx) \<le> 2 ^ nat (ey - ex + 52)"
      using rne_mono[of "x / qx" "B / qx"] unfolding Bx by (simp only: rne_of_int)
    then have "(of_int (rne (x / qx)) :: rat) \<le> B / qx"
      unfolding Bx by (simp only: of_int_le_iff)
    then have 1: "round_double x \<le> B"
      unfolding rx using qpos by (simp add: pos_le_divide_eq)
    have "B / qy \<le> y / qy" using By qpos by (simp add: divide_right_mono)
    then have "2 ^ 52 \<le> rne (y / qy)"
      using rne_mono[of "B / qy" "y / qy"] unfolding Byq by (simp only: rne_of_int)
    then have "B / qy \<le> (of_int (rne (y / qy)) :: rat)"
      unfolding Byq by (simp only: of_int_le_iff)
    then have 2: "B \<le> round_double y"
      unfolding ry using qpos by (simp add: pos_divide_le_eq)
    from 1 2 show ?thesis by simp
  qed
qed

lemma round_double_nonneg:
  assumes "0 \<le> x"
  shows "0 \<le> round_double x"
proof (cases "x = 0")
  case True
  then show ?thesis by (simp add: round_double_zero)
next
  case False
  define q :: rat where "q = 2 powi (max (ilog2 \<bar>x\<bar>) (- 1022) - 52)"
  have q: "0 < q" by (simp add: q_def)
  with assms have "0 \<le> x / q" by simp
  from rne_mono[OF this] have "0 \<le> rne (x / q)" using rne_of_int[of 0] by simp
  with q show ?thesis unfolding round_double_eq[OF False] q_def[symmetric] by simp
qed

lemma round_double_mono:
  assumes "x \<le> y"
  shows "round_double x \<le> round_double y"
proof -
  consider "0 < x" | "x \<le> 0" "0 \<le> y" | "y < 0" by linarith
  then show ?thesis
  proof cases
    case 1
    then show ?thesis using assms by (rule round_double_pos_mono)
  next
    case 2
    from 2(1) have "0 \<le> round_double (- x)" by (intro round_double_nonneg) simp
    then have "round_double x \<le> 0" by (simp add: round_double_minus)
    with round_double_nonneg[OF 2(2)] show ?thesis by simp
  next
    case 3
    with assms have "0 < - y" "- y \<le> - x" by simp_all
    from round_double_pos_mono[OF this] show ?thesis by (simp add: round_double_minus)
  qed
qed

lemma round_double_nat:
  assumes "0 < n" "n < 2 ^ 53"
  shows "round_double (of_int n) = of_int n"
proof -
  define x :: rat where "x = of_int n"
  have xpos: "0 < x" using assms(1) by (simp add: x_def)
  define e where "e = ilog2 x"
  from ilog2_bracket[OF xpos] have br: "2 powi e \<le> x" "x < 2 powi (e + 1)" by (simp_all add: e_def)
  have "1 \<le> x" using assms(1) by (simp add: x_def)
  have e0: "0 \<le> e"
  proof (rule ccontr)
    assume "\<not> 0 \<le> e"
    then have "e + 1 \<le> 0" by simp
    then have "(2::rat) powi (e + 1) \<le> 2 powi 0" by (intro power_int_increasing) simp_all
    with br(2) \<open>1 \<le> x\<close> show False by simp
  qed
  have e52: "e \<le> 52"
  proof (rule ccontr)
    assume "\<not> e \<le> 52"
    then have "53 \<le> e" by simp
    then have "(2::rat) powi 53 \<le> 2 powi e" by (intro power_int_increasing) simp_all
    moreover have "x < 2 ^ 53" using assms(2) unfolding x_def
      by (metis of_int_less_iff of_int_numeral of_int_power)
    ultimately show False using br(1) by simp
  qed
  define q :: rat where "q = 2 powi (e - 52)"
  have q: "0 < q" by (simp add: q_def)
  have iq: "1 / q = of_int (2 ^ nat (52 - e))"
  proof -
    have "1 / q = 2 powi (52 - e)" unfolding q_def by (simp add: power_int_diff)
    then show ?thesis using e52 by (simp add: pow2_int)
  qed
  have "x / q = x * (1 / q)" by simp
  also have "\<dots> = of_int (n * 2 ^ nat (52 - e))" unfolding iq x_def by simp
  finally have xq: "x / q = of_int (n * 2 ^ nat (52 - e))" .
  have "round_double x = of_int (rne (x / q)) * q"
    using round_double_eq[of x] xpos e0 by (simp add: q_def e_def max_def)
  also have "\<dots> = (x / q) * q" unfolding xq by (simp only: rne_of_int)
  also have "\<dots> = x" using q by simp
  finally show ?thesis by (simp add: x_def)
qed

lemma round_double_int:
  assumes "\<bar>n\<bar> < 2 ^ 53"
  shows "round_double (of_int n) = of_int n"
proof -
  consider "n = 0" | "0 < n" | "0 < - n" by linarith
  then show ?thesis
  proof cases
    case 1
    then show ?thesis by (simp add: round_double_zero)
  next
    case 2
    with assms show ?thesis by (intro round_double_nat) simp_all
  next
    case 3
    with assms have "round_double (of_int (- n)) = of_int (- n)" by (intro round_double_nat) simp_all
    then show ?thesis by (simp add: round_double_minus)
  qed
qed

section \<open>Properties of the rounded-rectangle rasteriser\<close>

lemma fill_region_simps:
  "img_w (fill_region R c im) = img_w im" "img_h (fill_region R c im) = img_h im"
  "img_px (fill_region R c im) p = (if inside im p \<and> R p then c else img_px im p)"
  "inside (fill_region R c im) p = inside im p"
  by (simp_all add: fill_region_def inside_def)

lemma and_then_Inr: "and_then r f = Inr b \<longleftrightarrow> (\<exists>a. r = Inr a \<and> f a = Inr b)"
  by (cases r) (simp_all add: and_then_def)

lemma and_then_simps: "and_then (Inr a) f = f a" "and_then (Inl e) f = Inl e"
  by (simp_all add: and_then_def)

lemma rectangle_Inr: "rectangle im b c = Inr im' \<longleftrightarrow> valid_box b \<and> im' = fill_region (in_rect b) c im"
  by (auto simp: rectangle_def)

lemma ellipse_Inr: "ellipse E im b c = Inr im' \<longleftrightarrow> valid_box b \<and> im' = fill_region (E b) c im"
  by (auto simp: ellipse_def)

lemma draw_rounded_rect_yield_Inr:
  assumes "draw_rounded_rect_yield E im (x1, y1, x2, y2) r c = Inr im'"
  shows "img_w im' = img_w im" "img_h im' = img_h im"
    "img_px im' p = (if inside im p \<and> rounded_region E (x1, y1, x2, y2) r p then c else img_px im p)"
    "0 \<le> r" "2 * r \<le> x2 - x1" "2 * r \<le> y2 - y1"
  using assms
  by (auto simp: draw_rounded_rect_yield_def and_then_Inr rectangle_Inr ellipse_Inr
        fill_region_simps rounded_region_def valid_box_def)

lemma draw_rounded_rect_yield_total:
  assumes "0 \<le> r" "2 * r \<le> x2 - x1" "2 * r \<le> y2 - y1"
  shows "\<exists>im'. draw_rounded_rect_yield E im (x1, y1, x2, y2) r c = Inr im'"
  using assms
  by (simp add: draw_rounded_rect_yield_def and_then_simps rectangle_def ellipse_def valid_box_def)

lemma draw_rounded_rect_clamps:
  "draw_rounded_rect E im coords radius c
     = draw_rounded_rect_yield E im coords (effective_radius coords radius) c"
  by (cases coords) (simp add: draw_rounded_rect_def draw_rounded_rect_yield_def effective_radius_def Let_def)

lemma effective_radius_bounds:
  assumes "0 \<le> radius" "x1 \<le> x2" "y1 \<le> y2"
  shows "0 \<le> effective_radius (x1, y1, x2, y2) radius"
    "2 * effective_radius (x1, y1, x2, y2) radius \<le> x2 - x1"
    "2 * effective_radius (x1, y1, x2, y2) radius \<le> y2 - y1"
  using assms by (auto simp: effective_radius_def min_def)

lemma effective_radius_id:
  "radius \<le> (x2 - x1) div 2 \<Longrightarrow> radius \<le> (y2 - y1) div 2
     \<Longrightarrow> effective_radius (x1, y1, x2, y2) radius = radius"
  by (simp add: effective_radius_def)

lemma floor_half: "\<lfloor>(of_int w :: rat) / 2\<rfloor> = w div 2"
  using floor_divide_of_int_eq[of w 2, where ?'a = rat] by simp

lemma floor_min: "\<lfloor>min a b\<rfloor> = min \<lfloor>a\<rfloor> \<lfloor>b :: rat\<rfloor>"
  by (simp add: min_def floor_mono) (meson floor_mono le_cases order_antisym)

lemma effective_radius_floor:
  "effective_radius (x1, y1, x2, y2) R = \<lfloor>claimed_radius (x1, y1, x2, y2) R\<rfloor>"
  by (simp add: effective_radius_def claimed_radius_def floor_min floor_half del: of_int_diff)

section \<open>Properties of the gradient compositor\<close>

lemma gradient_row_eq:
  "gradient_row ct cb h w row od = fill_region (in_hline 0 w row) (ink (gradient_colour ct cb h row)) od"
  by (cases ct; cases cb) (simp add: gradient_row_def gradient_colour_def line_def Let_def)

lemma fold_gradient_size:
  "img_w (fold (gradient_row ct cb h w) rows od) = img_w od
   \<and> img_h (fold (gradient_row ct cb h w) rows od) = img_h od"
  by (induction rows arbitrary: od) (simp_all add: gradient_row_eq fill_region_simps)

lemma fold_gradient_px:
  "img_px (fold (gradient_row ct cb h w) rows od) p =
     (if inside od p \<and> snd p \<in> set rows \<and> in_hline 0 w (snd p) p
      then ink (gradient_colour ct cb h (snd p)) else img_px od p)"
proof (induction rows arbitrary: od)
  case Nil
  then show ?case by simp
next
  case (Cons r rs)
  define od' where "od' = gradient_row ct cb h w r od"
  have "img_px (fold (gradient_row ct cb h w) (r # rs) od) p
        = img_px (fold (gradient_row ct cb h w) rs od') p"
    by (simp add: od'_def)
  also have "\<dots> = (if inside od' p \<and> snd p \<in> set rs \<and> in_hline 0 w (snd p) p
      then ink (gradient_colour ct cb h (snd p)) else img_px od' p)"
    by (rule Cons.IH)
  also have "\<dots> = (if inside od p \<and> snd p \<in> set (r # rs) \<and> in_hline 0 w (snd p) p
      then ink (gradient_colour ct cb h (snd p)) else img_px od p)"
    unfolding od'_def gradient_row_eq
    by (cases p) (auto simp: fill_region_simps in_hline_def)
  finally show ?case .
qed

lemma gradient_buffer_Inr:
  assumes "0 \<le> w" "0 \<le> h"
  shows "gradient_buffer ct cb w h = Inr (fold (gradient_row ct cb h w) [0..h - 1]
           \<lparr>img_w = w, img_h = h, img_px = (\<lambda>p. (0, 0, 0, 0))\<rparr>)"
  using assms by (simp add: gradient_buffer_def image_new_def and_then_simps)

lemma gradient_buffer_px:
  assumes "gradient_buffer ct cb w h = Inr buf"
  shows "img_w buf = w" "img_h buf = h"
    "0 \<le> x \<Longrightarrow> x < w \<Longrightarrow> 0 \<le> row \<Longrightarrow> row < h
       \<Longrightarrow> img_px buf (x, row) = ink (gradient_colour ct cb h row)"
    "\<not> (0 \<le> x \<and> x < w \<and> 0 \<le> row \<and> row < h) \<Longrightarrow> img_px buf (x, row) = (0, 0, 0, 0)"
proof -
  from assms have wh: "0 \<le> w" "0 \<le> h"
    by (auto simp: gradient_buffer_def image_new_def and_then_Inr split: if_splits)
  from assms gradient_buffer_Inr[OF wh, of ct cb]
  have buf: "buf = fold (gradient_row ct cb h w) [0..h - 1]
           \<lparr>img_w = w, img_h = h, img_px = (\<lambda>p. (0, 0, 0, 0))\<rparr>" by simp
  show "img_w buf = w" "img_h buf = h"
    unfolding buf using fold_gradient_size[of ct cb h w "[0..h - 1]"] by simp_all
  show "0 \<le> x \<Longrightarrow> x < w \<Longrightarrow> 0 \<le> row \<Longrightarrow> row < h
       \<Longrightarrow> img_px buf (x, row) = ink (gradient_colour ct cb h row)"
    unfolding buf by (simp add: fold_gradient_px inside_def in_hline_def)
  show "\<not> (0 \<le> x \<and> x < w \<and> 0 \<le> row \<and> row < h) \<Longrightarrow> img_px buf (x, row) = (0, 0, 0, 0)"
    unfolding buf by (auto simp: fold_gradient_px inside_def in_hline_def)
qed

lemma float_of_int_exact: "\<bar>n\<bar> \<le> 510 \<Longrightarrow> float_of_int n = of_int n"
  unfolding float_of_int_def by (rule round_double_int) simp

lemma int_truediv_zero: "int_truediv 0 m = 0"
  by (simp add: int_truediv_def round_double_zero)

lemma int_truediv_self: "0 < m \<Longrightarrow> int_truediv m m = 1"
  using round_double_int[of 1] by (simp add: int_truediv_def)

lemma int_truediv_mono:
  assumes "0 < m" "row \<le> row'"
  shows "int_truediv row m \<le> int_truediv row' m"
  unfolding int_truediv_def using assms by (intro round_double_mono divide_right_mono) simp_all

lemma int_truediv_unit:
  assumes "0 < m" "0 \<le> row" "row \<le> m"
  shows "0 \<le> int_truediv row m" "int_truediv row m \<le> 1"
  using int_truediv_mono[OF assms(1,2)] int_truediv_mono[OF assms(1,3)] assms(1)
  by (simp_all add: int_truediv_zero int_truediv_self)

lemma py_int_of_float_mono:
  assumes "x \<le> y"
  shows "py_int_of_float x \<le> py_int_of_float y"
proof -
  have 1: "\<lceil>x\<rceil> \<le> \<lfloor>y\<rfloor>" if "\<not> 0 \<le> x" "0 \<le> y"
  proof -
    from that(1) have "\<lceil>x\<rceil> \<le> 0" by (simp add: ceiling_le_iff)
    moreover from that(2) have "0 \<le> \<lfloor>y\<rfloor>" by simp
    ultimately show ?thesis by linarith
  qed
  show ?thesis
    using assms floor_mono[OF assms] ceiling_mono[OF assms] 1
    by (auto simp: py_int_of_float_def)
qed

lemma py_int_of_float_int: "py_int_of_float (of_int n) = n"
  by (simp add: py_int_of_float_def)

lemma gradient_channel_mono:
  assumes "ct \<le> cb" "t \<le> t'"
  shows "gradient_channel ct cb t \<le> gradient_channel ct cb t'"
proof -
  have "0 \<le> float_of_int (cb - ct)"
    unfolding float_of_int_def using assms(1) by (intro round_double_nonneg) simp
  then have "float_of_int (cb - ct) * t \<le> float_of_int (cb - ct) * t'"
    using assms(2) by (rule mult_left_mono[rotated])
  then have "float_mul (float_of_int (cb - ct)) t \<le> float_mul (float_of_int (cb - ct)) t'"
    unfolding float_mul_def by (rule round_double_mono)
  then have "float_add (float_of_int ct) (float_mul (float_of_int (cb - ct)) t)
           \<le> float_add (float_of_int ct) (float_mul (float_of_int (cb - ct)) t')"
    unfolding float_add_def by (intro round_double_mono) simp
  then show ?thesis unfolding gradient_channel_def by (rule py_int_of_float_mono)
qed

lemma gradient_channel_antimono:
  assumes "cb \<le> ct" "t \<le> t'"
  shows "gradient_channel ct cb t' \<le> gradient_channel ct cb t"
proof -
  have "round_double (of_int (cb - ct)) \<le> round_double 0"
    using assms(1) by (intro round_double_mono) simp
  then have "float_of_int (cb - ct) \<le> 0"
    by (simp add: float_of_int_def round_double_zero)
  then have "float_of_int (cb - ct) * t' \<le> float_of_int (cb - ct) * t"
    using assms(2) by (rule mult_left_mono_neg[rotated])
  then have "float_mul (float_of_int (cb - ct)) t' \<le> float_mul (float_of_int (cb - ct)) t"
    unfolding float_mul_def by (rule round_double_mono)
  then have "float_add (float_of_int ct) (float_mul (float_of_int (cb - ct)) t')
           \<le> float_add (float_of_int ct) (float_mul (float_of_int (cb - ct)) t)"
    unfolding float_add_def by (intro round_double_mono) simp
  then show ?thesis unfolding gradient_channel_def by (rule py_int_of_float_mono)
qed

lemma gradient_channel_top:
  assumes "channel ct"
  shows "gradient_channel ct cb 0 = ct"
proof -
  from assms have "\<bar>ct\<bar> \<le> 510" by (simp add: channel_def)
  then have "float_of_int ct = of_int ct" by (rule float_of_int_exact)
  moreover have "round_double (of_int ct) = of_int ct"
    using \<open>\<bar>ct\<bar> \<le> 510\<close> by (intro round_double_int) simp
  ultimately show ?thesis
    by (simp add: gradient_channel_def float_mul_def float_add_def round_double_zero
          py_int_of_float_int)
qed

lemma gradient_channel_bottom:
  assumes "channel ct" "channel cb"
  shows "gradient_channel ct cb 1 = cb"
proof -
  from assms have b: "\<bar>ct\<bar> \<le> 510" "\<bar>cb - ct\<bar> \<le> 510" "\<bar>cb\<bar> < 2 ^ 53" "\<bar>cb - ct\<bar> < 2 ^ 53"
    by (auto simp: channel_def)
  have 1: "float_of_int ct = of_int ct" "float_of_int (cb - ct) = of_int (cb - ct)"
    using b by (simp_all only: float_of_int_exact)
  have 2: "float_mul (of_int (cb - ct)) 1 = of_int (cb - ct)"
    unfolding float_mul_def mult_1_right using b(4) by (rule round_double_int)
  have "(of_int ct :: rat) + of_int (cb - ct) = of_int cb" by simp
  then have 3: "float_add (of_int ct) (of_int (cb - ct)) = of_int cb"
    unfolding float_add_def using round_double_int[OF b(3)] by simp
  show ?thesis
    unfolding gradient_channel_def 1 2 3 by (rule py_int_of_float_int)
qed

lemma gradient_channel_range:
  assumes "channel ct" "channel cb" "0 \<le> t" "t \<le> 1"
  shows "channel (gradient_channel ct cb t)"
proof (cases "ct \<le> cb")
  case True
  from gradient_channel_mono[OF True assms(3)] gradient_channel_mono[OF True assms(4)]
  show ?thesis
    using assms(1,2) by (simp add: gradient_channel_top gradient_channel_bottom channel_def)
next
  case False
  then have le: "cb \<le> ct" by simp
  from gradient_channel_antimono[OF le assms(3)] gradient_channel_antimono[OF le assms(4)]
  show ?thesis
    using assms(1,2) by (simp add: gradient_channel_top gradient_channel_bottom channel_def)
qed

lemma clip8_channel: "channel v \<Longrightarrow> clip8 v = v"
  by (simp add: clip8_def channel_def)

lemma row_unit:
  assumes "0 \<le> row" "row < h"
  shows "0 \<le> int_truediv row (max (h - 1) 1)" "int_truediv row (max (h - 1) 1) \<le> 1"
  using assms by (auto intro!: int_truediv_unit)

lemma ink_gradient_colour:
  assumes "channel tr" "channel tg" "channel tb" "channel br" "channel bg" "channel bb"
    and "0 \<le> row" "row < h"
  shows "ink (gradient_colour (tr, tg, tb) (br, bg, bb) h row)
         = gradient_colour (tr, tg, tb) (br, bg, bb) h row"
  using assms row_unit[OF assms(7,8)]
  by (simp add: ink_def gradient_colour_def clip8_channel gradient_channel_range)
     (simp add: clip8_def)

lemma gradient_colour_top:
  assumes "channel tr" "channel tg" "channel tb"
  shows "gradient_colour (tr, tg, tb) cb h 0 = (tr, tg, tb, 255)"
  using assms by (cases cb) (simp add: gradient_colour_def int_truediv_zero gradient_channel_top)

lemma gradient_colour_bottom:
  assumes "channel tr" "channel tg" "channel tb" "channel br" "channel bg" "channel bb" "2 \<le> h"
  shows "gradient_colour (tr, tg, tb) (br, bg, bb) h (h - 1) = (br, bg, bb, 255)"
proof -
  from assms(7) have "max (h - 1) 1 = h - 1" "0 < h - 1" by simp_all
  then have "int_truediv (h - 1) (max (h - 1) 1) = 1" by (simp add: int_truediv_self)
  then show ?thesis using assms by (simp add: gradient_colour_def gradient_channel_bottom)
qed

lemma gradient_buffer_spec:
  assumes "channel tr" "channel tg" "channel tb" "channel br" "channel bg" "channel bb"
    and "gradient_buffer (tr, tg, tb) (br, bg, bb) w h = Inr buf"
    and "0 \<le> x" "x < w" "0 \<le> row" "row < h"
  shows "img_px buf (x, row) = gradient_colour (tr, tg, tb) (br, bg, bb) h row"
  using gradient_buffer_px(3)[OF assms(7-11)] ink_gradient_colour[OF assms(1-6) assms(10,11)]
  by simp

lemma card_gradient_returns:
  "gradient_buffer (30, 48, 68) (25, 39, 52) 358 200 = Inr card_gradient"
  by (simp add: gradient_buffer_Inr card_gradient_def)

lemma blend8_transparent: "blend8 0 cur new = cur"
  by (simp add: blend8_def)

lemma paste_px:
  "img_w (paste im ov (ox, oy)) = img_w im" "img_h (paste im ov (ox, oy)) = img_h im"
  "img_px (paste im ov (ox, oy)) (x, y) =
     (if inside im (x, y) \<and> inside ov (x - ox, y - oy)
      then (case img_px ov (x - ox, y - oy) of (r, g, b, a) \<Rightarrow>
              case img_px im (x, y) of (cr, cg, cb) \<Rightarrow>
                (blend8 a cr r, blend8 a cg g, blend8 a cb b))
      else img_px im (x, y))"
  by (simp_all add: paste_def)

lemma paste_transparent:
  assumes "\<exists>r g b. img_px ov (x - ox, y - oy) = (r, g, b, 0)"
  shows "img_px (paste im ov (ox, oy)) (x, y) = img_px im (x, y)"
  using assms by (cases "img_px im (x, y)") (auto simp: paste_px blend8_transparent)

lemma putalpha_px:
  "img_w (putalpha im al) = img_w im" "img_h (putalpha im al) = img_h im"
  "\<exists>r g b. img_px (putalpha im al) p = (r, g, b, img_px al p)"
  by (cases "img_px im p"; simp add: putalpha_def)+

lemma draw_gradient_rect_rounded:
  assumes "hex_to_rgb color_top = Inr ct" "hex_to_rgb color_bot = Inr cb"
    and "x1 \<le> x2" "y1 \<le> y2" "0 < radius"
  shows "\<exists>buf md. gradient_buffer ct cb (x2 - x1) (y2 - y1) = Inr buf
      \<and> draw_rounded_rect E \<lparr>img_w = x2 - x1, img_h = y2 - y1, img_px = (\<lambda>p. 0)\<rparr>
           (0, 0, x2 - x1, y2 - y1) radius 255 = Inr md
      \<and> draw_gradient_rect E img (x1, y1, x2, y2) color_top color_bot radius
           = Inr (paste img (putalpha buf md) (x1, y1))"
proof -
  from assms(3,4) have wh: "0 \<le> x2 - x1" "0 \<le> y2 - y1" by simp_all
  from gradient_buffer_Inr[OF wh, of ct cb] obtain buf where
    buf: "gradient_buffer ct cb (x2 - x1) (y2 - y1) = Inr buf" by simp
  note sz = gradient_buffer_px(1,2)[OF buf]
  have "0 \<le> radius" "(0::int) \<le> x2 - x1" "(0::int) \<le> y2 - y1" using assms(5) wh by simp_all
  note eb = effective_radius_bounds[OF this]
  have "\<exists>md. draw_rounded_rect_yield E \<lparr>img_w = x2 - x1, img_h = y2 - y1, img_px = (\<lambda>p. 0)\<rparr>
           (0, 0, x2 - x1, y2 - y1) (effective_radius (0, 0, x2 - x1, y2 - y1) radius) (255::int)
           = Inr md"
    using eb by (intro draw_rounded_rect_yield_total) simp_all
  then obtain md where md: "draw_rounded_rect E \<lparr>img_w = x2 - x1, img_h = y2 - y1, img_px = (\<lambda>p. 0)\<rparr>
           (0, 0, x2 - x1, y2 - y1) radius (255::int) = Inr md"
    by (auto simp: draw_rounded_rect_clamps)
  have "draw_gradient_rect E img (x1, y1, x2, y2) color_top color_bot radius
           = Inr (paste img (putalpha buf md) (x1, y1))"
    using assms(5) wh
    by (simp add: draw_gradient_rect_def assms(1,2) and_then_simps buf sz image_new_def md)
  with buf md show ?thesis by blast
qed

lemma card_returns:
  "draw_gradient_rect ideal_ellipse canvas_features (50, 1697, 408, 1897) ''#1e3044'' ''#192734'' 12
     = Inr card_pasted"
proof -
  have h: "hex_to_rgb ''#1e3044'' = Inr (30, 48, 68)" "hex_to_rgb ''#192734'' = Inr (25, 39, 52)"
    by code_simp+
  have m: "draw_rounded_rect ideal_ellipse \<lparr>img_w = 358, img_h = 200, img_px = (\<lambda>p. 0)\<rparr>
           (0, 0, 358, 200) 12 255 = Inr card_mask"
    by (simp add: draw_rounded_rect_def and_then_simps rectangle_def ellipse_def valid_box_def
          card_mask_def)
  show ?thesis
    using gradient_buffer_px(1,2)[OF card_gradient_returns]
    by (simp add: draw_gradient_rect_def h and_then_simps card_gradient_returns image_new_def m
          card_pasted_def)
qed

section \<open>Properties of the layout routines\<close>

lemma palette_values:
  "hex_to_rgb BACKGROUND_COLOR = Inr (15, 20, 25)" "hex_to_rgb PRIMARY_COLOR = Inr (0, 212, 170)"
  "hex_to_rgb SECONDARY_COLOR = Inr (29, 161, 242)" "hex_to_rgb ACCENT_PURPLE = Inr (155, 89, 182)"
  "hex_to_rgb ACCENT_ORANGE = Inr (243, 156, 18)" "hex_to_rgb TEXT_COLOR = Inr (255, 255, 255)"
  "hex_to_rgb MUTED_COLOR = Inr (136, 153, 166)" "hex_to_rgb CARD_COLOR = Inr (25, 39, 52)"
  "hex_to_rgb CARD_HIGHLIGHT = Inr (30, 48, 68)" "hex_to_rgb ''#e74c3c'' = Inr (231, 76, 60)"
  "hex_to_rgb ''#2ecc71'' = Inr (46, 204, 113)" "hex_to_rgb ''#009977'' = Inr (0, 153, 119)"
  "hex_to_rgb ''#9b59b6'' = Inr (155, 89, 182)"
  unfolding BACKGROUND_COLOR_def PRIMARY_COLOR_def SECONDARY_COLOR_def
    ACCENT_PURPLE_def ACCENT_ORANGE_def TEXT_COLOR_def MUTED_COLOR_def CARD_COLOR_def
    CARD_HIGHLIGHT_def
  by code_simp+

lemma palette:
  "parses BACKGROUND_COLOR" "parses PRIMARY_COLOR" "parses SECONDARY_COLOR" "parses ACCENT_PURPLE"
  "parses ACCENT_ORANGE" "parses TEXT_COLOR" "parses MUTED_COLOR" "parses CARD_COLOR"
  "parses CARD_HIGHLIGHT" "parses ''#e74c3c''" "parses ''#2ecc71''" "parses ''#009977''"
  "parses ''#9b59b6''"
  by (simp_all only: parses_def palette_values sum.case)

lemma parsesE: "parses c \<Longrightarrow> \<exists>v. hex_to_rgb c = Inr v"
  by (cases "hex_to_rgb c") (auto simp: parses_def)

lemma fine_draw_text: "parses c \<Longrightarrow> f \<in> F \<Longrightarrow> fine F (draw_text xy s f c a)"
  by (auto dest!: parsesE simp: draw_text_def and_then_simps fine_def plain_def)

lemma fine_rounded_rect: "parses c \<Longrightarrow> fine F (rounded_rect b r c)"
  by (auto dest!: parsesE simp: rounded_rect_def and_then_simps fine_def plain_def)

lemma fine_rectangle_call: "parses c \<Longrightarrow> fine F (rectangle_call b c)"
  by (auto dest!: parsesE simp: rectangle_call_def and_then_simps fine_def plain_def)

lemma fine_ellipse_call: "parses c \<Longrightarrow> fine F (ellipse_call b c)"
  by (auto dest!: parsesE simp: ellipse_call_def and_then_simps fine_def plain_def)

lemma fine_draw_hr: "fine F (draw_hr y)"
  unfolding draw_hr_def by (rule fine_rectangle_call) (rule palette)

lemma fine_gradient_rect:
  "parses t \<Longrightarrow> parses b \<Longrightarrow> x1 \<le> x2 \<Longrightarrow> y1 \<le> y2 \<Longrightarrow> fine F (gradient_rect (x1, y1, x2, y2) t b r)"
  by (auto dest!: parsesE simp: gradient_rect_def and_then_simps fine_def plain_def)

lemma sequence_fine:
  "\<forall>x\<in>set xs. fine F x \<Longrightarrow> \<exists>cs. sequence xs = Inr cs \<and> list_all (plain F) cs"
proof (induction xs)
  case Nil
  then show ?case by simp
next
  case (Cons x xs)
  then obtain cs where cs: "sequence xs = Inr cs" "list_all (plain F) cs" by auto
  from Cons.prems obtain c where c: "x = Inr c" "plain F c"
    by (cases x) (auto simp: fine_def)
  show ?case by (simp add: c cs and_then_simps)
qed

lemma draws_ok:
  assumes "\<And>y. \<forall>x\<in>set (d y). fine F x"
  shows "block_ok F a (draws d a)"
  unfolding block_ok_def draws_def
proof
  fix y
  from sequence_fine[OF assms[of y]] obtain cs where "sequence (d y) = Inr cs" "list_all (plain F) cs"
    by blast
  then show "\<exists>cs. and_then (sequence (d y)) (\<lambda>cs. Inr (cs, a)) = Inr (cs, a) \<and> list_all (plain F) cs"
    by (simp add: and_then_simps)
qed

lemma ball_for_range:
  "(\<forall>x\<in>set (for_range n body). P x) \<longleftrightarrow> (\<forall>k<n. \<forall>x\<in>set (body (int k)). P x)"
  by (auto simp: for_range_def)

lemma cards_literal:
  "cards [] body = []"
  "cards (a # as) body = body 0 a @ cards as (\<lambda>i. body (i + 1))"
proof -
  show "cards [] body = []" by (simp add: cards_def)
  have "map (\<lambda>(i, item). body (int i) item) (enumerate (Suc n) as)
        = map (\<lambda>(i, item). body (int i + 1) item) (enumerate n as)" for n
    by (induction as arbitrary: n) (simp_all add: add.commute)
  then show "cards (a # as) body = body 0 a @ cards as (\<lambda>i. body (i + 1))"
    by (simp add: cards_def)
qed

lemmas fine_intros = fine_draw_text fine_rounded_rect fine_rectangle_call fine_ellipse_call
  fine_draw_hr fine_gradient_rect

lemma fonts_of_mem:
  assumes "fonts_of fs \<subseteq> F"
  shows "f_title fs \<in> F" "f_brand fs \<in> F" "f_sect fs \<in> F" "f_lg fs \<in> F" "f_mb fs \<in> F"
    "f_m fs \<in> F" "f_n fs \<in> F" "f_sb fs \<in> F" "f_s fs \<in> F" "f_tb fs \<in> F" "f_t fs \<in> F"
    "f_apy fs \<in> F"
  using assms by (simp_all add: fonts_of_def)

lemma heading_ok: "parses c \<Longrightarrow> f \<in> F \<Longrightarrow> block_ok F a (heading f s c a)"
  unfolding heading_def by (rule draws_ok) (simp add: fine_draw_text)

lemma hr_ok: "block_ok F 34 hr"
  unfolding hr_def by (rule draws_ok) (simp add: fine_draw_hr)

lemma gap_ok: "block_ok F a (gap a)"
  unfolding gap_def by (rule draws_ok) simp

lemma key_stats_ok:
  assumes "fonts_of fs \<subseteq> F"
  shows "block_ok F (96 + 14) (key_stats fs)"
  unfolding key_stats_def
  by (rule draws_ok)
     (simp add: Let_def cards_literal ball_for_range ball_Un fine_intros palette fonts_of_mem[OF assms])

lemma markets_ok:
  assumes "fonts_of fs \<subseteq> F"
  shows "block_ok F (192 + 25) (markets fs)"
  unfolding markets_def
  by (rule draws_ok)
     (simp add: Let_def cards_literal ball_for_range ball_Un fine_intros palette fonts_of_mem[OF assms])

lemma differentiators_ok:
  assumes "fonts_of fs \<subseteq> F"
  shows "block_ok F (215 + 25) (differentiators fs)"
  unfolding differentiators_def
  by (rule draws_ok)
     (simp add: Let_def cards_literal ball_for_range ball_Un fine_intros palette fonts_of_mem[OF assms])

lemma architecture_ok:
  assumes "fonts_of fs \<subseteq> F"
  shows "block_ok F (260 + 25) (architecture fs)"
  unfolding architecture_def
  by (rule draws_ok)
     (simp add: Let_def cards_literal ball_for_range ball_Un fine_intros palette fonts_of_mem[OF assms])

lemma wallet_ok:
  assumes "fonts_of fs \<subseteq> F"
  shows "block_ok F (150 + 8) (wallet fs)"
  unfolding wallet_def
  by (rule draws_ok)
     (simp add: Let_def cards_literal ball_for_range ball_Un fine_intros palette fonts_of_mem[OF assms])

lemma wallet_footnote_ok:
  assumes "fonts_of fs \<subseteq> F"
  shows "block_ok F 35 (wallet_footnote fs)"
  unfolding wallet_footnote_def
  by (rule draws_ok) (simp add: fine_intros palette fonts_of_mem[OF assms])

lemma liquidity_subtitle_ok:
  assumes "fonts_of fs \<subseteq> F"
  shows "block_ok F 48 (liquidity_subtitle fs)"
  unfolding liquidity_subtitle_def
  by (rule draws_ok) (simp add: fine_intros palette fonts_of_mem[OF assms])

lemma liquidity_ok:
  assumes "fonts_of fs \<subseteq> F"
  shows "block_ok F (200 + 22) (liquidity fs)"
  unfolding liquidity_def
  by (rule draws_ok)
     (simp add: Let_def cards_literal ball_for_range ball_Un fine_intros palette fonts_of_mem[OF assms]
        WIDTH_def)

lemma staking_header_ok:
  assumes "fonts_of fs \<subseteq> F"
  shows "block_ok F 36 (staking_header fs)"
  unfolding staking_header_def
  by (rule draws_ok)
     (simp add: Let_def col_x_def cards_literal fine_intros palette fonts_of_mem[OF assms])

lemma staking_row_ok:
  assumes "fonts_of fs \<subseteq> F"
  shows "block_ok F 25 (staking_row fs s)"
  unfolding staking_row_def
  by (rule draws_ok)
     (simp add: Let_def col_x_def cards_literal fine_intros palette fonts_of_mem[OF assms])

lemma revenue_ok:
  assumes "fonts_of fs \<subseteq> F"
  shows "block_ok F (105 + 25) (revenue fs)"
  unfolding revenue_def
  by (rule draws_ok)
     (simp add: Let_def cards_literal ball_for_range ball_Un fine_intros palette fonts_of_mem[OF assms]
        WIDTH_def)

lemma coming_soon_ok:
  assumes "fonts_of fs \<subseteq> F"
  shows "block_ok F (220 + 25) (coming_soon fs)"
  unfolding coming_soon_def
  by (rule draws_ok)
     (simp add: Let_def cards_literal ball_for_range ball_Un fine_intros palette fonts_of_mem[OF assms])

lemma tokenomics_ok:
  assumes "fonts_of fs \<subseteq> F"
  shows "block_ok F 195 (tokenomics fs)"
  unfolding tokenomics_def
  by (rule draws_ok)
     (simp add: Let_def ball_for_range ball_Un fine_intros palette fonts_of_mem[OF assms])

lemma cta_ok:
  assumes "fonts_of fs \<subseteq> F"
  shows "block_ok F 75 (cta fs)"
  unfolding cta_def
  by (rule draws_ok)
     (simp add: fine_intros palette fonts_of_mem[OF assms] WIDTH_def)

lemma layout_ok:
  assumes "fonts_of fs \<subseteq> F"
  shows "list_all2 (block_ok F) (tl advances) (tl (layout e fs))"
  unfolding layout_def advances_def list.sel
  by (intro list.rel_intros heading_ok hr_ok gap_ok key_stats_ok markets_ok differentiators_ok
        architecture_ok wallet_ok wallet_footnote_ok liquidity_subtitle_ok liquidity_ok
        staking_header_ok staking_row_ok revenue_ok coming_soon_ok tokenomics_ok cta_ok
        palette fonts_of_mem[OF assms] assms)

lemma fonts_of_yield_mem:
  assumes "fonts_of_yield fs \<subseteq> F"
  shows "font_large fs \<in> F" "font_medium fs \<in> F" "font_normal fs \<in> F" "font_small fs \<in> F"
    "font_tiny fs \<in> F"
  using assms by (simp_all add: fonts_of_yield_def)

lemma key_stats_yield_ok:
  assumes "fonts_of_yield fs \<subseteq> F"
  shows "block_ok F 100 (key_stats_yield fs)"
  unfolding key_stats_yield_def
  by (rule draws_ok)
     (simp add: Let_def ball_for_range fine_intros palette fonts_of_yield_mem[OF assms])

lemma strategies_ok:
  assumes "fonts_of_yield fs \<subseteq> F"
  shows "block_ok F (280 + 30) (strategies fs)"
  unfolding strategies_def
  by (rule draws_ok)
     (simp add: Let_def cards_literal ball_for_range ball_Un fine_intros palette
        fonts_of_yield_mem[OF assms])

lemma timeline_ok:
  assumes "fonts_of_yield fs \<subseteq> F"
  shows "block_ok F 140 (timeline fs)"
  unfolding timeline_def
  by (rule draws_ok)
     (simp add: Let_def ball_for_range fine_intros palette fonts_of_yield_mem[OF assms])

lemma table_header_ok:
  assumes "fonts_of_yield fs \<subseteq> F"
  shows "block_ok F 45 (table_header fs)"
  unfolding table_header_def
  by (rule draws_ok)
     (simp add: Let_def ball_for_range fine_intros palette fonts_of_yield_mem[OF assms])

lemma table_row_ok:
  assumes "fonts_of_yield fs \<subseteq> F"
  shows "block_ok F 35 (table_row fs)"
  unfolding table_row_def
  by (rule draws_ok)
     (simp add: Let_def ball_for_range fine_intros palette fonts_of_yield_mem[OF assms])

lemma treasury_ok:
  assumes "fonts_of_yield fs \<subseteq> F"
  shows "block_ok F 140 (treasury fs)"
  unfolding treasury_def
  by (rule draws_ok) (simp add: fine_intros palette fonts_of_yield_mem[OF assms])

lemma components_ok:
  assumes "fonts_of_yield fs \<subseteq> F"
  shows "block_ok F 70 (components fs)"
  unfolding components_def
  by (rule draws_ok)
     (simp add: Let_def ball_for_range fine_intros palette fonts_of_yield_mem[OF assms])

lemma cta_yield_ok:
  assumes "fonts_of_yield fs \<subseteq> F"
  shows "block_ok F 80 (cta_yield fs)"
  unfolding cta_yield_def
  by (rule draws_ok) (simp add: fine_intros palette fonts_of_yield_mem[OF assms])

lemma layout_yield_ok:
  assumes "fonts_of_yield fs \<subseteq> F"
  shows "list_all2 (block_ok F) (tl (advances_yield logo)) (tl (layout_yield e fs))"
  unfolding layout_yield_def advances_yield_def list.sel
  by (intro list.rel_intros heading_ok gap_ok key_stats_yield_ok strategies_ok timeline_ok
        table_header_ok table_row_ok treasury_ok components_ok cta_yield_ok
        palette fonts_of_yield_mem[OF assms] assms)

lemma run_blocks_ok:
  assumes "list_all2 (block_ok F) advs bs"
  shows "\<exists>st'. run_blocks bs st = Inr st' \<and> cursor st' = cursor st + sum_list advs
           \<and> trace st' = trace st @ cursor_values (cursor st) advs
           \<and> (\<exists>cs. drawn st' = drawn st @ cs \<and> list_all (plain F) cs)"
  using assms
proof (induction advs bs arbitrary: st rule: list_all2_induct)
  case Nil
  then show ?case by simp
next
  case (Cons a advs b bs)
  from Cons.hyps(1) obtain cs where b: "b (cursor st) = Inr (cs, a)" and cs: "list_all (plain F) cs"
    unfolding block_ok_def by blast
  define st1 where "st1 = \<lparr>cursor = cursor st + a, drawn = drawn st @ cs,
                           trace = trace st @ [cursor st + a]\<rparr>"
  have rb: "run_block b st = Inr st1"
    by (simp add: run_block_def b and_then_simps st1_def)
  from Cons.IH[of st1] obtain st' cs' where
    st': "run_blocks bs st1 = Inr st'" "cursor st' = cursor st1 + sum_list advs"
      "trace st' = trace st1 @ cursor_values (cursor st1) advs"
      "drawn st' = drawn st1 @ cs'" "list_all (plain F) cs'"
    by blast
  have "run_blocks (b # bs) st = Inr st'" by (simp add: rb and_then_simps st')
  moreover have "cursor st' = cursor st + sum_list (a # advs)"
    using st'(2) by (simp add: st1_def)
  moreover have "trace st' = trace st @ cursor_values (cursor st) (a # advs)"
    using st'(3) by (simp add: st1_def)
  moreover have "drawn st' = drawn st @ (cs @ cs')" "list_all (plain F) (cs @ cs')"
    using st'(4,5) cs by (simp_all add: st1_def)
  ultimately show ?case by blast
qed

lemma cursor_values_increasing:
  "list_all (\<lambda>a. 0 < a) advs \<Longrightarrow> sorted_wrt (<) (c # cursor_values c advs)"
proof (induction advs arbitrary: c)
  case Nil
  then show ?case by simp
next
  case (Cons a advs)
  then have a: "0 < a" and rest: "list_all (\<lambda>a. 0 < a) advs" by simp_all
  from Cons.IH[OF rest, of "c + a"] have s: "sorted_wrt (<) ((c + a) # cursor_values (c + a) advs)" .
  then have "\<forall>x\<in>set (cursor_values (c + a) advs). c + a < x" by simp
  with a have "\<forall>x\<in>set ((c + a) # cursor_values (c + a) advs). c < x" by auto
  with s show ?case by simp
qed

lemma plain_observed:
  assumes "list_all (plain F) cs"
  shows "set (fonts_used cs) \<subseteq> F" "filter is_paste cs = []"
  using assms
  by (induction cs) (auto simp: fonts_used_def plain_def map_filter_simps split: option.splits)

lemma load_fonts_cases:
  "font_file e Bold \<and> font_file e Regular \<or> load_fonts e = default_fonts"
  by (auto simp: load_fonts_def truetype_def and_then_simps)

lemma load_fonts_default:
  "\<not> font_file e Bold \<or> \<not> font_file e Regular \<Longrightarrow> load_fonts e = default_fonts"
  by (auto simp: load_fonts_def truetype_def and_then_simps)

lemma load_fonts_yield_default:
  "\<not> font_file e Bold \<or> \<not> font_file e Regular \<Longrightarrow> load_fonts_yield e = default_fonts_yield"
  by (auto simp: load_fonts_yield_def truetype_def and_then_simps)

lemma fonts_of_default: "fonts_of default_fonts = {DefaultFont}"
  "fonts_of_yield default_fonts_yield = {DefaultFont}"
  by (simp_all add: fonts_of_def default_fonts_def fonts_of_yield_def default_fonts_yield_def)

lemma header_returns:
  "\<exists>hcs. header e fs y = Inr (hcs, 120) \<and> set (fonts_used hcs) \<subseteq> {f_brand fs}
     \<and> (\<not> image_file e GLOBE_PATH \<longrightarrow>
          hcs = [Text (WIDTH div 2, y + 40) Latin1 (f_brand fs) (0, 212, 170) MM])"
proof (cases "image_file e GLOBE_PATH")
  case False
  then show ?thesis
    by (simp add: header_def image_open_def and_then_simps draw_text_def palette_values
          fonts_used_def map_filter_simps)
next
  case True
  show ?thesis
  proof (cases "text_bbox e (f_brand fs)")
    case (Inl ex)
    with True show ?thesis
      by (simp add: header_def image_open_def and_then_simps draw_text_def palette_values
          fonts_used_def map_filter_simps)
  next
    case (Inr bx)
    obtain bl bt br bb where "bx = (bl, bt, br, bb)" by (cases bx) auto
    with True Inr show ?thesis
      by (simp add: header_def image_open_def and_then_simps draw_text_def palette_values
          fonts_used_def map_filter_simps Let_def)
  qed
qed

lemma header_yield_returns:
  "\<exists>hcs. header_yield e fs y = Inr (hcs, if image_file e LOGO_PATH then 140 else 120)
     \<and> set (fonts_used hcs) \<subseteq> {font_large fs}
     \<and> (\<not> image_file e LOGO_PATH \<longrightarrow>
          hcs = [Text (WIDTH div 2, y + 50) Latin1 (font_large fs) (0, 212, 170) MM])"
  by (simp add: header_yield_def image_open_def and_then_simps draw_text_def palette_values
          fonts_used_def map_filter_simps Let_def)

lemma layout_split: "layout e fs = header e fs # tl (layout e fs)"
  by (simp add: layout_def)

lemma advances_split: "advances = 120 # tl advances"
  by (simp add: advances_def)

lemma layout_yield_split: "layout_yield e fs = header_yield e fs # tl (layout_yield e fs)"
  by (simp add: layout_yield_def)

lemma advances_yield_split:
  "advances_yield logo = (if logo then 140 else 120) # tl (advances_yield logo)"
  by (simp add: advances_yield_def)

lemma create_infographic_run:
  "\<exists>r hcs cs. create_infographic e = Inr r
     \<and> cursors r = 20 # cursor_values 20 advances
     \<and> working r = \<lparr>cv_w = WIDTH, cv_h = HEIGHT, cv_background = (15, 20, 25), cv_calls = hcs @ cs\<rparr>
     \<and> saved r = export (working r) (20 + sum_list advances)
     \<and> set (fonts_used hcs) \<subseteq> {f_brand (load_fonts e)}
     \<and> (\<not> image_file e GLOBE_PATH \<longrightarrow>
          hcs = [Text (WIDTH div 2, 20 + 40) Latin1 (f_brand (load_fonts e)) (0, 212, 170) MM])
     \<and> list_all (plain (fonts_of (load_fonts e))) cs"
proof -
  define fs where "fs = load_fonts e"
  define st0 where "st0 = \<lparr>cursor = 20, drawn = [], trace = [20]\<rparr>"
  from header_returns[of e fs 20] obtain hcs where
    h: "header e fs 20 = Inr (hcs, 120)" "set (fonts_used hcs) \<subseteq> {f_brand fs}"
      "\<not> image_file e GLOBE_PATH \<longrightarrow> hcs = [Text (WIDTH div 2, 20 + 40) Latin1 (f_brand fs) (0, 212, 170) MM]"
    by blast
  define st1 where "st1 = \<lparr>cursor = 140, drawn = hcs, trace = [20, 140]\<rparr>"
  have rb: "run_block (header e fs) st0 = Inr st1"
    by (simp add: run_block_def st0_def h and_then_simps st1_def)
  from run_blocks_ok[OF layout_ok[OF subset_refl, of fs e], of st1] obtain st' cs where
    st': "run_blocks (tl (layout e fs)) st1 = Inr st'"
      "cursor st' = cursor st1 + sum_list (tl advances)"
      "trace st' = trace st1 @ cursor_values (cursor st1) (tl advances)"
      "drawn st' = drawn st1 @ cs" "list_all (plain (fonts_of fs)) cs"
    by blast
  have run: "run_blocks (layout e fs) st0 = Inr st'"
    by (subst layout_split) (simp add: rb and_then_simps st')
  have cur: "cursor st' = 20 + sum_list advances"
    using st'(2) by (subst advances_split) (simp add: st1_def)
  have tr: "trace st' = 20 # cursor_values 20 advances"
    using st'(3) by (subst advances_split) (simp add: st1_def)
  have dr: "drawn st' = hcs @ cs" using st'(4) by (simp add: st1_def)
  define img where "img = \<lparr>cv_w = WIDTH, cv_h = HEIGHT, cv_background = (15, 20, 25),
                           cv_calls = hcs @ cs\<rparr>"
  have "create_infographic e = Inr \<lparr>saved = export img (20 + sum_list advances), working = img,
           cursors = 20 # cursor_values 20 advances\<rparr>"
    unfolding create_infographic_def
    by (simp add: palette_values and_then_simps fs_def[symmetric] st0_def[symmetric] run Let_def
          cur tr dr img_def)
  with h(2,3) st'(5) show ?thesis
    unfolding fs_def img_def by (intro exI[of _ "\<lparr>saved = export img (20 + sum_list advances),
       working = img, cursors = 20 # cursor_values 20 advances\<rparr>"] exI[of _ hcs] exI[of _ cs])
      (simp add: img_def)
qed

lemma disclaimer_returns:
  "disclaimer fs y = Inr (Text (WIDTH div 2, y) Latin1 (font_tiny fs) (136, 153, 166) MM)"
  by (simp add: disclaimer_def draw_text_def palette_values and_then_simps)

lemma create_infographic_yield_run:
  "\<exists>r hcs cs. create_infographic_yield e = Inr r
     \<and> cursors r = 30 # cursor_values 30 (advances_yield (image_file e LOGO_PATH))
     \<and> working r = \<lparr>cv_w = WIDTH, cv_h = HEIGHT_yield, cv_background = (15, 20, 25),
                     cv_calls = hcs @ cs\<rparr>
     \<and> saved r = working r
     \<and> set (fonts_used hcs) \<subseteq> {font_large (load_fonts_yield e)}
     \<and> (\<not> image_file e LOGO_PATH \<longrightarrow>
          hcs = [Text (WIDTH div 2, 30 + 50) Latin1 (font_large (load_fonts_yield e)) (0, 212, 170) MM])
     \<and> list_all (plain (fonts_of_yield (load_fonts_yield e))) cs"
proof -
  define fs where "fs = load_fonts_yield e"
  define logo where "logo = image_file e LOGO_PATH"
  define a0 :: int where "a0 = (if logo then 140 else 120)"
  define st0 where "st0 = \<lparr>cursor = 30, drawn = [], trace = [30]\<rparr>"
  from header_yield_returns[of e fs 30] obtain hcs where
    h: "header_yield e fs 30 = Inr (hcs, a0)" "set (fonts_used hcs) \<subseteq> {font_large fs}"
      "\<not> image_file e LOGO_PATH \<longrightarrow> hcs = [Text (WIDTH div 2, 30 + 50) Latin1 (font_large fs) (0, 212, 170) MM]"
    unfolding a0_def logo_def by blast
  define st1 where "st1 = \<lparr>cursor = 30 + a0, drawn = hcs, trace = [30, 30 + a0]\<rparr>"
  have rb: "run_block (header_yield e fs) st0 = Inr st1"
    by (simp add: run_block_def st0_def h and_then_simps st1_def)
  from run_blocks_ok[OF layout_yield_ok[OF subset_refl, of fs logo e], of st1] obtain st' cs where
    st': "run_blocks (tl (layout_yield e fs)) st1 = Inr st'"
      "cursor st' = cursor st1 + sum_list (tl (advances_yield logo))"
      "trace st' = trace st1 @ cursor_values (cursor st1) (tl (advances_yield logo))"
      "drawn st' = drawn st1 @ cs" "list_all (plain (fonts_of_yield fs)) cs"
    by blast
  have run: "run_blocks (layout_yield e fs) st0 = Inr st'"
    by (subst layout_yield_split) (simp add: rb and_then_simps st')
  have tr: "trace st' = 30 # cursor_values 30 (advances_yield logo)"
    using st'(3) by (subst advances_yield_split) (simp add: st1_def a0_def)
  have dr: "drawn st' = hcs @ cs" using st'(4) by (simp add: st1_def)
  define d where "d = Text (WIDTH div 2, cursor st') Latin1 (font_tiny fs) (136, 153, 166) MM"
  have pd: "plain (fonts_of_yield fs) d"
    by (simp add: plain_def d_def fonts_of_yield_def)
  define img where "img = \<lparr>cv_w = WIDTH, cv_h = HEIGHT_yield, cv_background = (15, 20, 25),
                           cv_calls = hcs @ (cs @ [d])\<rparr>"
  have "create_infographic_yield e = Inr \<lparr>saved = img, working = img,
           cursors = 30 # cursor_values 30 (advances_yield logo)\<rparr>"
    unfolding create_infographic_yield_def
    by (simp add: palette_values and_then_simps fs_def[symmetric] st0_def[symmetric] run Let_def
          tr dr img_def disclaimer_returns d_def)
  moreover have "list_all (plain (fonts_of_yield fs)) (cs @ [d])"
    using st'(5) pd by simp
  ultimately show ?thesis
    using h(2,3)
    unfolding fs_def img_def logo_def
    by (intro exI[of _ "\<lparr>saved = img, working = img,
           cursors = 30 # cursor_values 30 (advances_yield (image_file e LOGO_PATH))\<rparr>"]
          exI[of _ hcs] exI[of _ "cs @ [d]"])
       (simp add: img_def)
qed

lemma advances_positive: "list_all (\<lambda>a. 0 < a) advances" "list_all (\<lambda>a. 0 < a) (advances_yield logo)"
  by (simp_all add: advances_def advances_yield_def)

lemma advances_sum: "sum_list advances = 3013"
  "sum_list (advances_yield logo) = (if logo then 1420 else 1400)"
  by (simp_all add: advances_def advances_yield_def)

lemma fonts_used_append: "fonts_used (a @ b) = fonts_used a @ fonts_used b"
  by (simp add: fonts_used_def map_filter_def)

lemma last_cursor_values: "last (c # cursor_values c advs) = c + sum_list advs"
  by (induction advs arbitrary: c) (simp_all add: add.assoc)

lemma image_file_env_ok: "image_file env_ok p" "font_file env_ok f"
  "\<not> image_file env_bad p" "\<not> font_file env_bad Regular"
  by (simp_all add: env_ok_def env_bad_def)

subsection \<open>The radii of \<open>create_infographic.py\<close>\<close>

lemma within_half_as_claimed: "within_half c \<Longrightarrow> radius_as_claimed c"
proof (cases c)
  case (RoundedRect b r fill)
  obtain x1 y1 x2 y2 where b: "b = (x1, y1, x2, y2)" by (cases b) auto
  assume "within_half c"
  then have h: "r \<le> (x2 - x1) div 2" "r \<le> (y2 - y1) div 2" by (simp_all add: RoundedRect b)
  have "(of_int r :: rat) \<le> of_int ((x2 - x1) div 2)" "(of_int r :: rat) \<le> of_int ((y2 - y1) div 2)"
    using h by simp_all
  moreover have "(of_int ((x2 - x1) div 2) :: rat) \<le> of_int (x2 - x1) / 2"
    "(of_int ((y2 - y1) div 2) :: rat) \<le> of_int (y2 - y1) / 2"
    using floor_half[of "x2 - x1"] floor_half[of "y2 - y1"] of_int_floor_le[where ?'a = rat]
    by metis+
  ultimately show ?thesis
    by (simp add: RoundedRect b claimed_radius_def min_def)
qed simp_all

lemma sequence_all:
  "sequence xs = Inr cs \<Longrightarrow> \<forall>x\<in>set xs. holds P x \<Longrightarrow> list_all P cs"
proof (induction xs arbitrary: cs)
  case Nil
  then show ?case by simp
next
  case (Cons x xs)
  from Cons.prems(1) obtain c cs' where c: "x = Inr c" "sequence xs = Inr cs'" "cs = c # cs'"
    by (auto simp: and_then_Inr)
  from Cons.prems(2) c(1) have "P c" by (simp add: holds_def)
  moreover from Cons.IH[OF c(2)] Cons.prems(2) have "list_all P cs'" by simp
  ultimately show ?case by (simp add: c(3))
qed

lemma draws_every:
  assumes "\<And>y. \<forall>x\<in>set (d y). holds P x"
  shows "every_call P (draws d a)"
  unfolding every_call_def draws_def
  using sequence_all[OF _ assms] by (auto simp: and_then_Inr)

lemma run_blocks_every:
  assumes "list_all (every_call P) bs" "run_blocks bs st = Inr st'" "list_all P (drawn st)"
  shows "list_all P (drawn st')"
  using assms
proof (induction bs arbitrary: st)
  case Nil
  then show ?case by simp
next
  case (Cons b bs)
  from Cons.prems(2) obtain st1 where
    st1: "run_block b st = Inr st1" "run_blocks bs st1 = Inr st'"
    by (auto simp: and_then_Inr)
  from st1(1) obtain cs a where b: "b (cursor st) = Inr (cs, a)" "drawn st1 = drawn st @ cs"
    by (auto simp: run_block_def and_then_Inr)
  from Cons.prems(1) b(1) have "list_all P cs" by (auto simp: every_call_def)
  with Cons.prems(3) b(2) have "list_all P (drawn st1)" by simp
  with Cons.IH[OF _ st1(2)] Cons.prems(1) show ?case by simp
qed

lemma holds_draw_text: "holds within_half (draw_text xy s f c a)"
  by (cases "hex_to_rgb c") (simp_all add: holds_def draw_text_def and_then_simps)

lemma holds_rectangle_call: "holds within_half (rectangle_call b c)"
  by (cases "hex_to_rgb c") (simp_all add: holds_def rectangle_call_def and_then_simps)

lemma holds_ellipse_call: "holds within_half (ellipse_call b c)"
  by (cases "hex_to_rgb c") (simp_all add: holds_def ellipse_call_def and_then_simps)

lemma holds_rounded_rect:
  "0 \<le> r \<Longrightarrow> r \<le> (x2 - x1) div 2 \<Longrightarrow> r \<le> (y2 - y1) div 2
     \<Longrightarrow> holds within_half (rounded_rect (x1, y1, x2, y2) r c)"
  by (cases "hex_to_rgb c") (simp_all add: holds_def rounded_rect_def and_then_simps)

lemmas holds_intros = holds_draw_text holds_rectangle_call holds_ellipse_call holds_rounded_rect

lemma heading_every: "every_call within_half (heading f s c a)"
  unfolding heading_def by (rule draws_every) (simp add: holds_intros)

lemma gap_every: "every_call within_half (gap a)"
  unfolding gap_def by (rule draws_every) simp

lemma header_yield_every: "every_call within_half (header_yield e fs)"
  by (auto simp: every_call_def header_yield_def image_open_def and_then_Inr draw_text_def
        split: if_splits)

lemma key_stats_yield_every: "every_call within_half (key_stats_yield fs)"
  unfolding key_stats_yield_def
  by (rule draws_every) (simp add: Let_def ball_for_range holds_intros WIDTH_def)

lemma strategies_every: "every_call within_half (strategies fs)"
  unfolding strategies_def
  by (rule draws_every) (simp add: Let_def cards_literal ball_for_range ball_Un holds_intros WIDTH_def)

lemma timeline_every: "every_call within_half (timeline fs)"
  unfolding timeline_def
  by (rule draws_every) (simp add: Let_def ball_for_range holds_intros WIDTH_def)

lemma table_header_every: "every_call within_half (table_header fs)"
  unfolding table_header_def
  by (rule draws_every) (simp add: Let_def ball_for_range holds_intros WIDTH_def)

lemma table_row_every: "every_call within_half (table_row fs)"
  unfolding table_row_def
  by (rule draws_every) (simp add: Let_def ball_for_range holds_intros WIDTH_def)

lemma treasury_every: "every_call within_half (treasury fs)"
  unfolding treasury_def
  by (rule draws_every) (simp add: holds_intros WIDTH_def)

lemma components_every: "every_call within_half (components fs)"
  unfolding components_def
  by (rule draws_every) (simp add: Let_def ball_for_range holds_intros WIDTH_def)

lemma cta_yield_every: "every_call within_half (cta_yield fs)"
  unfolding cta_yield_def
  by (rule draws_every) (simp add: holds_intros WIDTH_def)

lemma layout_yield_every: "list_all (every_call within_half) (layout_yield e fs)"
  by (simp add: layout_yield_def heading_every gap_every header_yield_every key_stats_yield_every
        strategies_every timeline_every table_header_every table_row_every treasury_every
        components_every cta_yield_every)

text \<open>
  Every rounded rectangle that \<open>create_infographic.py\<close> draws, in every environment, has a
  radius of at most half of both sides.
\<close>

lemma create_infographic_yield_within_half:
  assumes "create_infographic_yield e = Inr r"
  shows "list_all within_half (cv_calls (saved r))"
proof -
  from assms obtain bg st d where
    st: "run_blocks (layout_yield e (load_fonts_yield e)) \<lparr>cursor = 30, drawn = [], trace = [30]\<rparr> = Inr st"
    and d: "disclaimer (load_fonts_yield e) (cursor st) = Inr d"
    and r: "cv_calls (saved r) = drawn st @ [d]"
    by (auto simp: create_infographic_yield_def and_then_Inr Let_def)
  from run_blocks_every[OF layout_yield_every st] have "list_all within_half (drawn st)" by simp
  moreover from d have "within_half d" by (auto simp: disclaimer_def draw_text_def and_then_Inr)
  ultimately show ?thesis by (simp add: r)
qed

text \<open>
  The accent bar of the first market card of \<open>create_features_infographic.py\<close>:
  \<open>draw_rounded_rect(draw, (40, 384, 216, 389), 3, hex_to_rgb(PRIMARY_COLOR))\<close>.
\<close>

lemma market_accent_bar_drawn:
  "RoundedRect (40, 384, 216, 389) 3 (0, 212, 170) \<in> set (cv_calls (saved features_run))"
  unfolding features_run_def by code_simp

subsection \<open>Text that the default font cannot draw\<close>

lemma raises_font: "raises e c \<Longrightarrow> bitmap_default e \<and> font_of c = Some DefaultFont"
  by (cases c) auto

lemma raises_fonts_used:
  "list_ex (raises e) cs \<Longrightarrow> bitmap_default e \<and> DefaultFont \<in> set (fonts_used cs)"
  by (induction cs) (auto simp: fonts_used_def map_filter_simps dest: raises_font split: option.splits)

lemma sequence_ex:
  "sequence xs = Inr cs \<Longrightarrow> \<exists>x\<in>set xs. may_raise e x \<Longrightarrow> list_ex (raises e) cs"
proof (induction xs arbitrary: cs)
  case Nil
  then show ?case by simp
next
  case (Cons x xs)
  from Cons.prems(1) obtain c cs' where c: "x = Inr c" "sequence xs = Inr cs'" "cs = c # cs'"
    by (auto simp: and_then_Inr)
  show ?case
  proof (cases "may_raise e x")
    case True
    then show ?thesis by (simp add: c may_raise_def)
  next
    case False
    with Cons.prems(2) have "\<exists>x\<in>set xs. may_raise e x" by simp
    from Cons.IH[OF c(2) this] show ?thesis by (simp add: c(3))
  qed
qed

lemma bex_for_range:
  "(\<exists>x\<in>set (for_range n body). P x) \<longleftrightarrow> (\<exists>k<n. \<exists>x\<in>set (body (int k)). P x)"
  by (auto simp: for_range_def)

lemma may_raise_draw_text:
  "parses c \<Longrightarrow> bitmap_default e \<Longrightarrow> may_raise e (draw_text xy NonLatin1 DefaultFont c a)"
  by (auto dest!: parsesE simp: may_raise_def draw_text_def and_then_simps)

lemma run_blocks_drawn:
  "run_blocks bs st = Inr st' \<Longrightarrow> \<exists>cs. drawn st' = drawn st @ cs"
proof (induction bs arbitrary: st)
  case Nil
  then show ?case by simp
next
  case (Cons b bs)
  from Cons.prems obtain st1 where
    st1: "run_block b st = Inr st1" "run_blocks bs st1 = Inr st'"
    by (auto simp: and_then_Inr)
  from st1(1) obtain cs where "drawn st1 = drawn st @ cs"
    by (auto simp: run_block_def and_then_Inr)
  with Cons.IH[OF st1(2)] show ?case by auto
qed

lemma run_blocks_reaches:
  assumes "run_blocks bs st = Inr st'" "b \<in> set bs"
  shows "\<exists>y cs a. b y = Inr (cs, a) \<and> set cs \<subseteq> set (drawn st')"
  using assms
proof (induction bs arbitrary: st)
  case Nil
  then show ?case by simp
next
  case (Cons x bs)
  from Cons.prems(1) obtain st1 where
    st1: "run_block x st = Inr st1" "run_blocks bs st1 = Inr st'"
    by (auto simp: and_then_Inr)
  show ?case
  proof (cases "b = x")
    case True
    from st1(1) obtain cs a where x: "x (cursor st) = Inr (cs, a)" "drawn st1 = drawn st @ cs"
      by (auto simp: run_block_def and_then_Inr)
    from run_blocks_drawn[OF st1(2)] x(2) have "set cs \<subseteq> set (drawn st')" by auto
    with x(1) True show ?thesis by blast
  next
    case False
    with Cons.prems(2) have "b \<in> set bs" by simp
    from Cons.IH[OF st1(2) this] show ?thesis .
  qed
qed

lemma wallet_footnote_raises:
  assumes "bitmap_default e" "wallet_footnote default_fonts y = Inr (cs, a)"
  shows "list_ex (raises e) cs"
proof -
  from assms(2) have s: "sequence [draw_text (WIDTH div 2, y + 8) NonLatin1 (f_t default_fonts) MUTED_COLOR MM] = Inr cs"
    by (auto simp: wallet_footnote_def draws_def and_then_Inr)
  show ?thesis
    by (rule sequence_ex[OF s]) (simp add: default_fonts_def may_raise_draw_text palette assms(1))
qed

lemma strategies_raises:
  assumes "bitmap_default e" "strategies default_fonts_yield y = Inr (cs, a)"
  shows "list_ex (raises e) cs"
proof -
  from assms(2) obtain xs where s: "sequence xs = Inr cs" and
    xs: "xs = (let card_width = (WIDTH - 140) div 3; card_height = 280
       in cards [(4, PRIMARY_COLOR), (4, SECONDARY_COLOR), (4, ''#9b59b6'')]
            (\<lambda>i (details, color).
               let x = 50 + (card_width + 20) * i
               in [rounded_rect (x, y, x + card_width, y + card_height) 15 CARD_COLOR,
                   draw_text (x + card_width div 2, y + 30) Latin1 (font_medium default_fonts_yield) color MM,
                   draw_text (x + card_width div 2, y + 60) Latin1 (font_tiny default_fonts_yield) MUTED_COLOR MM,
                   draw_text (x + card_width div 2, y + 100) Latin1 (font_medium default_fonts_yield) TEXT_COLOR MM]
                  @ for_range details (\<lambda>j.
                      [draw_text (x + 20, y + 140 + j * 30) NonLatin1 (font_small default_fonts_yield) TEXT_COLOR No_anchor])))"
    by (auto simp: strategies_def draws_def and_then_Inr)
  have k: "\<exists>k::nat. k < 4" by (rule exI[of _ 0]) simp
  have "\<exists>x\<in>set xs. may_raise e x"
    unfolding xs
    by (simp add: Let_def cards_literal bex_Un bex_for_range default_fonts_yield_def
          may_raise_draw_text palette assms(1) k)
  from sequence_ex[OF s this] show ?thesis .
qed

lemma main_raises:
  assumes "\<not> font_file e Bold \<or> \<not> font_file e Regular" "bitmap_default e"
  shows "main e = Inl UnicodeEncodeError" "main_yield e = Inl UnicodeEncodeError"
proof -
  from create_infographic_run[of e] obtain r where r: "create_infographic e = Inr r" by blast
  from r obtain st where
    st: "run_blocks (layout e (load_fonts e)) \<lparr>cursor = 20, drawn = [], trace = [20]\<rparr> = Inr st"
    and w: "cv_calls (working r) = drawn st"
    by (auto simp: create_infographic_def and_then_Inr Let_def)
  have "wallet_footnote (load_fonts e) \<in> set (layout e (load_fonts e))"
    by (simp add: layout_def)
  from run_blocks_reaches[OF st this] obtain y cs a where
    "wallet_footnote (load_fonts e) y = Inr (cs, a)" "set cs \<subseteq> set (drawn st)" by blast
  with wallet_footnote_raises[OF assms(2), of y cs a] load_fonts_default[OF assms(1)]
  have "list_ex (raises e) (drawn st)" by (auto simp: list_ex_iff)
  then show "main e = Inl UnicodeEncodeError"
    by (simp add: main_def rendered_def r and_then_simps w)
next
  from create_infographic_yield_run[of e] obtain r where r: "create_infographic_yield e = Inr r"
    by blast
  from r obtain st d where
    st: "run_blocks (layout_yield e (load_fonts_yield e)) \<lparr>cursor = 30, drawn = [], trace = [30]\<rparr>
           = Inr st"
    and w: "cv_calls (working r) = drawn st @ [d]"
    by (auto simp: create_infographic_yield_def and_then_Inr Let_def)
  have "strategies (load_fonts_yield e) \<in> set (layout_yield e (load_fonts_yield e))"
    by (simp add: layout_yield_def)
  from run_blocks_reaches[OF st this] obtain y cs a where
    "strategies (load_fonts_yield e) y = Inr (cs, a)" "set cs \<subseteq> set (drawn st)" by blast
  with strategies_raises[OF assms(2), of y cs a] load_fonts_yield_default[OF assms(1)]
  have "list_ex (raises e) (drawn st)" by (auto simp: list_ex_iff)
  then show "main_yield e = Inl UnicodeEncodeError"
    by (simp add: main_yield_def rendered_def r and_then_simps w)
qed

lemma load_fonts_loaded:
  assumes "font_file e Bold" "font_file e Regular"
  shows "DefaultFont \<notin> fonts_of (load_fonts e)" "DefaultFont \<notin> fonts_of_yield (load_fonts_yield e)"
  using assms
  by (simp_all add: load_fonts_def load_fonts_yield_def truetype_def and_then_simps fonts_of_def
        fonts_of_yield_def)

lemma main_returns:
  assumes "font_file e Bold \<and> font_file e Regular \<or> \<not> bitmap_default e"
  shows "main e = create_infographic e" "main_yield e = create_infographic_yield e"
proof -
  from create_infographic_run[of e] obtain r hcs cs where
    r: "create_infographic e = Inr r"
      "working r = \<lparr>cv_w = WIDTH, cv_h = HEIGHT, cv_background = (15, 20, 25), cv_calls = hcs @ cs\<rparr>"
      "set (fonts_used hcs) \<subseteq> {f_brand (load_fonts e)}"
      "list_all (plain (fonts_of (load_fonts e))) cs"
    by blast
  have "\<not> list_ex (raises e) (hcs @ cs)"
  proof
    assume "list_ex (raises e) (hcs @ cs)"
    from raises_fonts_used[OF this] have b: "bitmap_default e"
      and d: "DefaultFont \<in> set (fonts_used (hcs @ cs))" by simp_all
    from d r(3) plain_observed(1)[OF r(4)] have "DefaultFont \<in> fonts_of (load_fonts e)"
      by (auto simp: fonts_used_append fonts_of_def)
    with load_fonts_loaded(1)[of e] assms b show False by blast
  qed
  then show "main e = create_infographic e"
    by (simp add: main_def rendered_def r(1,2) and_then_simps)
next
  from create_infographic_yield_run[of e] obtain r hcs cs where
    r: "create_infographic_yield e = Inr r"
      "working r = \<lparr>cv_w = WIDTH, cv_h = HEIGHT_yield, cv_background = (15, 20, 25),
                     cv_calls = hcs @ cs\<rparr>"
      "set (fonts_used hcs) \<subseteq> {font_large (load_fonts_yield e)}"
      "list_all (plain (fonts_of_yield (load_fonts_yield e))) cs"
    by blast
  have "\<not> list_ex (raises e) (hcs @ cs)"
  proof
    assume "list_ex (raises e) (hcs @ cs)"
    from raises_fonts_used[OF this] have b: "bitmap_default e"
      and d: "DefaultFont \<in> set (fonts_used (hcs @ cs))" by simp_all
    from d r(3) plain_observed(1)[OF r(4)] have "DefaultFont \<in> fonts_of_yield (load_fonts_yield e)"
      by (auto simp: fonts_used_append fonts_of_yield_def)
    with load_fonts_loaded(2)[of e] assms b show False by blast
  qed
  then show "main_yield e = create_infographic_yield e"
    by (simp add: main_yield_def rendered_def r(1,2) and_then_simps)
qed

lemma env_bitmap_simps: "\<not> font_file env_bitmap f" "bitmap_default env_bitmap"
  "image_file env_bitmap p"
  by (simp_all add: env_bitmap_def)

lemma main_result:
  "main e = Inr r \<Longrightarrow> create_infographic e = Inr r"
  "main_yield e = Inr r \<Longrightarrow> create_infographic_yield e = Inr r"
  by (auto simp: main_def main_yield_def rendered_def and_then_Inr split: if_splits)

subsection \<open>The colour round trip and the stripping of \<open>#\<close>\<close>

lemma hex6_eval: "hex6 ''1da1f2''" "hex6 ''AA0000''" "hex6 ''00d4aa''"
  by (simp_all add: hex6_def is_hex_def hex_value_def digit_value_def)

text \<open>
  Claim C5, amended.  For every string of exactly six hexadecimal digits, with or without
  one leading \<open>#\<close>, \<open>hex_to_rgb\<close> returns a triple of integers, each in 0..255, whose
  components are the values of the three consecutive digit pairs (red, green, blue).
  Reformatting the triple with \<open>%02x%02x%02x\<close> gives the digits in lower case: the
  original string when its digits are lower case, as in every colour constant of the two
  scripts, and not otherwise, because upper-case and lower-case digits parse to the same
  triple.
\<close>

theorem hex_to_rgb_roundtrip:
  assumes "hex6 d" and "s = d \<or> s = CHR ''#'' # d"
  shows "\<exists>r g b. hex_to_rgb s = Inr (r, g, b)
           \<and> r = pair_value (d ! 0) (d ! 1) \<and> g = pair_value (d ! 2) (d ! 3)
           \<and> b = pair_value (d ! 4) (d ! 5)
           \<and> channel r \<and> channel g \<and> channel b
           \<and> rgb_to_hex (r, g, b) = map lower d"
proof -
  from assms(1) obtain a b c e f g where d: "d = [a, b, c, e, f, g]"
    and hx: "is_hex a" "is_hex b" "is_hex c" "is_hex e" "is_hex f" "is_hex g"
    by (rule hex6_list)
  have "s = replicate 0 (CHR ''#'') @ d \<or> s = replicate 1 (CHR ''#'') @ d"
    using assms(2) by simp
  then have "hex_to_rgb s = Inr (pair_value a b, pair_value c e, pair_value f g)"
    unfolding d using hex_to_rgb_digits[OF hx] by metis
  moreover have "rgb_to_hex (pair_value a b, pair_value c e, pair_value f g) = map lower d"
    by (simp add: rgb_to_hex_def d hex2_pair hx)
  ultimately show ?thesis
    by (simp add: d pair_value_channel hx)
qed

theorem hex_to_rgb_roundtrip_witness:
  "hex6 ''1da1f2'' \<and> hex_to_rgb ''#1da1f2'' = Inr (29, 161, 242)
   \<and> channel 29 \<and> channel 161 \<and> channel 242 \<and> rgb_to_hex (29, 161, 242) = ''1da1f2''"
proof -
  have h: "hex6 ''1da1f2''" by (rule hex6_eval)
  have v: "pair_value CHR ''1'' CHR ''d'' = 29" "pair_value CHR ''a'' CHR ''1'' = 161"
    "pair_value CHR ''f'' CHR ''2'' = 242"
    by (simp_all add: pair_value_def hex_value_def digit_value_def)
  from hex_to_rgb_roundtrip[OF h, of "''#1da1f2''"] show ?thesis
    by (simp add: h v lower_def)
qed

text \<open>
  Claim C5 as stated fails on upper-case digits: \<open>AA0000\<close> and \<open>aa0000\<close> are two valid
  strings with the same triple, so no reformatting returns both; \<open>%02x\<close> returns the
  second.
\<close>

theorem hex_roundtrip_counterexample:
  "hex6 ''AA0000'' \<and> hex_to_rgb ''AA0000'' = Inr (170, 0, 0)
   \<and> hex_to_rgb ''aa0000'' = Inr (170, 0, 0) \<and> rgb_to_hex (170, 0, 0) \<noteq> ''AA0000''"
  by code_simp

text \<open>
  Claim C10, amended.  \<open>hex_to_rgb\<close> strips every leading \<open>#\<close>: for \<open>k\<close> leading \<open>#\<close>
  characters followed by exactly six hexadecimal digits the result is the triple of the
  digits alone, with channels in 0..255.  No validation is performed on any other string:
  the result depends only on the first six characters left after stripping, and it is
  either the exception \<open>ValueError\<close> or a triple of integers of magnitude at most 255
  (which may be a well-formed colour).
\<close>

theorem hex_to_rgb_strips_every_hash:
  "(hex6 d \<longrightarrow> hex_to_rgb (replicate k (CHR ''#'') @ d) = hex_to_rgb d
        \<and> (\<exists>r g b. hex_to_rgb d = Inr (r, g, b) \<and> channel r \<and> channel g \<and> channel b))
   \<and> hex_to_rgb s = hex_to_rgb (take 6 (lstrip (CHR ''#'') s))
   \<and> (hex_to_rgb s = Inl ValueError
      \<or> (\<exists>r g b. hex_to_rgb s = Inr (r, g, b) \<and> \<bar>r\<bar> \<le> 255 \<and> \<bar>g\<bar> \<le> 255 \<and> \<bar>b\<bar> \<le> 255))"
proof -
  have "hex_to_rgb (replicate k (CHR ''#'') @ d) = hex_to_rgb d
        \<and> (\<exists>r g b. hex_to_rgb d = Inr (r, g, b) \<and> channel r \<and> channel g \<and> channel b)"
    if "hex6 d"
  proof -
    from that obtain a b c e f g where d: "d = [a, b, c, e, f, g]"
      and hx: "is_hex a" "is_hex b" "is_hex c" "is_hex e" "is_hex f" "is_hex g"
      by (rule hex6_list)
    from hex_to_rgb_digits[OF hx, of k] hex_to_rgb_digits[OF hx, of 0] show ?thesis
      by (simp add: d pair_value_channel hx)
  qed
  with hex_to_rgb_take6[of s] hex_to_rgb_cases[of s] show ?thesis by blast
qed

theorem hex_to_rgb_strips_every_hash_witness:
  "hex6 ''00d4aa'' \<and> hex_to_rgb ''###00d4aa'' = hex_to_rgb ''00d4aa''
   \<and> hex_to_rgb ''00d4aa'' = Inr (0, 212, 170)"
proof -
  have h: "hex6 ''00d4aa''" by (rule hex6_eval)
  have r: "replicate 3 (CHR ''#'') @ ''00d4aa'' = ''###00d4aa''" by (simp add: numeral_3_eq_3)
  have e: "hex_to_rgb ''00d4aa'' = Inr (0, 212, 170)" by code_simp
  from hex_to_rgb_strips_every_hash[of "''00d4aa''" 3 "''''"] h show ?thesis
    unfolding r by (simp add: e)
qed

text \<open>
  Claim C10 as stated fails on its second half: eight hexadecimal digits, or five, are not
  six hexadecimal digits, yet \<open>hex_to_rgb\<close> neither raises nor returns a malformed
  triple.
\<close>

theorem hex_to_rgb_malformed_counterexample:
  "\<not> hex6 (lstrip (CHR ''#'') ''aabbccdd'') \<and> hex_to_rgb ''aabbccdd'' = Inr (170, 187, 204)
   \<and> channel 170 \<and> channel 187 \<and> channel 204
   \<and> \<not> hex6 (lstrip (CHR ''#'') ''12345'') \<and> hex_to_rgb ''12345'' = Inr (18, 52, 5)"
  by code_simp

subsection \<open>The painted shape and the radius\<close>

text \<open>
  Claim C4, amended.  Whenever \<open>draw_rounded_rect\<close> returns, the canvas keeps its size and
  the pixels painted with the fill colour are exactly the pixels of the canvas in the union
  of the rectangle \<open>[x1 + r, y1, x2 - r, y2]\<close>, the rectangle \<open>[x1, y1 + r, x2, y2 - r]\<close>
  and the four filled circles of diameter \<open>2 r\<close> in the corners of the box, where \<open>r\<close> is the
  effective radius \<open>min (R, (x2 - x1) // 2, (y2 - y1) // 2)\<close>; every other pixel keeps its
  colour.  The call returns for every box with \<open>x1 \<le> x2\<close>, \<open>y1 \<le> y2\<close> and every \<open>R \<ge> 0\<close>.
  This is \<open>create_features_infographic.py\<close>; the function of \<open>create_infographic.py\<close>
  does the same for every \<open>R\<close> from 0 to half the smaller side, where \<open>r = R\<close>.
\<close>

theorem rounded_rect_paints_union:
  "(draw_rounded_rect E im (x1, y1, x2, y2) R c = Inr im' \<longrightarrow>
      img_w im' = img_w im \<and> img_h im' = img_h im \<and>
      (\<forall>p. img_px im' p =
         (if inside im p \<and> rounded_region E (x1, y1, x2, y2) (effective_radius (x1, y1, x2, y2) R) p
          then c else img_px im p)))
   \<and> (0 \<le> R \<and> x1 \<le> x2 \<and> y1 \<le> y2 \<longrightarrow>
        (\<exists>i. draw_rounded_rect E im (x1, y1, x2, y2) R c = Inr i))
   \<and> (0 \<le> R \<and> R \<le> (x2 - x1) div 2 \<and> R \<le> (y2 - y1) div 2 \<longrightarrow>
        effective_radius (x1, y1, x2, y2) R = R \<and>
        draw_rounded_rect_yield E im (x1, y1, x2, y2) R c = draw_rounded_rect E im (x1, y1, x2, y2) R c)"
proof (intro conjI impI)
  assume a: "draw_rounded_rect E im (x1, y1, x2, y2) R c = Inr im'"
  then have y: "draw_rounded_rect_yield E im (x1, y1, x2, y2) (effective_radius (x1, y1, x2, y2) R) c = Inr im'"
    by (simp add: draw_rounded_rect_clamps)
  show "img_w im' = img_w im" by (rule draw_rounded_rect_yield_Inr(1)[OF y])
  show "img_h im' = img_h im" by (rule draw_rounded_rect_yield_Inr(2)[OF y])
  show "\<forall>p. img_px im' p =
         (if inside im p \<and> rounded_region E (x1, y1, x2, y2) (effective_radius (x1, y1, x2, y2) R) p
          then c else img_px im p)"
    using draw_rounded_rect_yield_Inr(3)[OF y] by blast
next
  assume "0 \<le> R \<and> x1 \<le> x2 \<and> y1 \<le> y2"
  then have "0 \<le> R" "x1 \<le> x2" "y1 \<le> y2" by simp_all
  from draw_rounded_rect_yield_total[OF effective_radius_bounds[OF this]]
  show "\<exists>i. draw_rounded_rect E im (x1, y1, x2, y2) R c = Inr i"
    by (simp add: draw_rounded_rect_clamps)
next
  assume a: "0 \<le> R \<and> R \<le> (x2 - x1) div 2 \<and> R \<le> (y2 - y1) div 2"
  then show e: "effective_radius (x1, y1, x2, y2) R = R" by (simp add: effective_radius_id)
  show "draw_rounded_rect_yield E im (x1, y1, x2, y2) R c = draw_rounded_rect E im (x1, y1, x2, y2) R c"
    by (simp add: draw_rounded_rect_clamps e)
qed

lemma accent_bar_returns:
  "draw_rounded_rect ideal_ellipse canvas30 (0, 0, 20, 5) 3 1 = Inr accent_bar"
  by (simp add: draw_rounded_rect_def and_then_simps rectangle_def ellipse_def valid_box_def
        accent_bar_def)

text \<open>
  Claim C4 as stated fails where the requested radius exceeds half a side, as for the accent
  bar of a market card in \<open>create_features_infographic.py\<close> (height 5, radius 3): the
  circle of diameter 6 in the top left corner of the box reaches the pixel \<open>(3, 6)\<close>, below
  the box, and the call leaves that pixel as it was.
\<close>

theorem rounded_rect_requested_radius_counterexample:
  "inside canvas30 (3, 6) \<and> rounded_region ideal_ellipse (0, 0, 20, 5) 3 (3, 6)
   \<and> draw_rounded_rect ideal_ellipse canvas30 (0, 0, 20, 5) 3 1 = Inr accent_bar
   \<and> img_px accent_bar (3, 6) = img_px canvas30 (3, 6) \<and> img_px accent_bar (3, 6) \<noteq> 1"
  by (simp add: accent_bar_returns)
     (simp add: accent_bar_def fill_region_simps inside_def canvas30_def rounded_region_def
        ideal_ellipse_def in_rect_def)

theorem rounded_rect_paints_union_witness:
  "draw_rounded_rect ideal_ellipse canvas30 (0, 0, 20, 5) 3 1 = Inr accent_bar
   \<and> img_w accent_bar = 30 \<and> img_h accent_bar = 12
   \<and> effective_radius (0, 0, 20, 5) 3 = 2
   \<and> rounded_region ideal_ellipse (0, 0, 20, 5) 2 (0, 2) \<and> img_px accent_bar (0, 2) = 1
   \<and> \<not> rounded_region ideal_ellipse (0, 0, 20, 5) 2 (0, 0) \<and> img_px accent_bar (0, 0) = 0
   \<and> (0::int) \<le> 3 \<and> (3::int) \<le> (22 - 2) div 2 \<and> (3::int) \<le> (12 - 2) div 2
   \<and> effective_radius (2, 2, 22, 12) 3 = 3
   \<and> draw_rounded_rect_yield ideal_ellipse canvas30 (2, 2, 22, 12) 3 1
       = draw_rounded_rect ideal_ellipse canvas30 (2, 2, 22, 12) 3 1"
proof -
  have e: "effective_radius (0, 0, 20, 5) 3 = 2" by (simp add: effective_radius_def)
  have r: "rounded_region ideal_ellipse (0, 0, 20, 5) 2 (0, 2)"
    "\<not> rounded_region ideal_ellipse (0, 0, 20, 5) 2 (0, 0)"
    by (simp_all add: rounded_region_def ideal_ellipse_def in_rect_def)
  have i: "inside canvas30 (0, 2)" "img_px canvas30 (0, 0) = 0" "img_w canvas30 = 30"
    "img_h canvas30 = 12"
    by (simp_all add: inside_def canvas30_def)
  from rounded_rect_paints_union[of ideal_ellipse canvas30 0 0 20 5 3 1 accent_bar]
    rounded_rect_paints_union[of ideal_ellipse canvas30 2 2 22 12 3 1 accent_bar]
  show ?thesis
    by (simp add: accent_bar_returns e r i)
qed

text \<open>
  Claim C2, amended.  \<open>draw_rounded_rect\<close> of \<open>create_features_infographic.py\<close> makes its
  six drawing calls with the radius \<open>r = min (R, (x2 - x1) // 2, (y2 - y1) // 2)\<close>, the
  halves rounded down: \<open>r\<close> is the integer part of \<open>min (R, (x2 - x1) / 2, (y2 - y1) / 2)\<close>,
  and twice \<open>r\<close> is at most the width and at most the height of the box.
  \<open>draw_rounded_rect\<close> of \<open>create_infographic.py\<close> has no clamp and draws with \<open>R\<close> as
  given; in every environment, at each call the script makes of it, \<open>R\<close> is equal to
  \<open>min (R, (x2 - x1) / 2, (y2 - y1) / 2)\<close>.
\<close>

theorem radius_clamped_to_floor_halves:
  "draw_rounded_rect E im (x1, y1, x2, y2) R c
     = draw_rounded_rect_yield E im (x1, y1, x2, y2) (effective_radius (x1, y1, x2, y2) R) c
   \<and> effective_radius (x1, y1, x2, y2) R = min R (min ((x2 - x1) div 2) ((y2 - y1) div 2))
   \<and> effective_radius (x1, y1, x2, y2) R = \<lfloor>claimed_radius (x1, y1, x2, y2) R\<rfloor>
   \<and> 2 * effective_radius (x1, y1, x2, y2) R \<le> x2 - x1
   \<and> 2 * effective_radius (x1, y1, x2, y2) R \<le> y2 - y1
   \<and> (\<exists>r. create_infographic_yield e = Inr r \<and> list_all radius_as_claimed (cv_calls (saved r)))"
proof (intro conjI)
  show "draw_rounded_rect E im (x1, y1, x2, y2) R c
     = draw_rounded_rect_yield E im (x1, y1, x2, y2) (effective_radius (x1, y1, x2, y2) R) c"
    by (rule draw_rounded_rect_clamps)
  show "effective_radius (x1, y1, x2, y2) R = min R (min ((x2 - x1) div 2) ((y2 - y1) div 2))"
    by (simp add: effective_radius_def)
  show "effective_radius (x1, y1, x2, y2) R = \<lfloor>claimed_radius (x1, y1, x2, y2) R\<rfloor>"
    by (rule effective_radius_floor)
  show "2 * effective_radius (x1, y1, x2, y2) R \<le> x2 - x1"
    "2 * effective_radius (x1, y1, x2, y2) R \<le> y2 - y1"
    unfolding effective_radius_def by auto
  from create_infographic_yield_run[of e] obtain r where r: "create_infographic_yield e = Inr r"
    by blast
  from create_infographic_yield_within_half[OF r]
  have "list_all radius_as_claimed (cv_calls (saved r))"
    by (simp add: list_all_iff within_half_as_claimed)
  with r show "\<exists>r. create_infographic_yield e = Inr r \<and> list_all radius_as_claimed (cv_calls (saved r))"
    by blast
qed

theorem radius_clamped_to_floor_halves_witness:
  "draw_rounded_rect ideal_ellipse canvas30 (0, 0, 20, 5) 3 1
     = draw_rounded_rect_yield ideal_ellipse canvas30 (0, 0, 20, 5) 2 1
   \<and> effective_radius (0, 0, 20, 5) 3 = 2
   \<and> \<lfloor>claimed_radius (0, 0, 20, 5) 3\<rfloor> = 2
   \<and> create_infographic_yield env_ok = Inr yield_run
   \<and> list_all radius_as_claimed (cv_calls (saved yield_run))"
proof -
  have e: "effective_radius (0, 0, 20, 5) 3 = 2" by (simp add: effective_radius_def)
  from radius_clamped_to_floor_halves[of ideal_ellipse canvas30 0 0 20 5 3 1 env_ok]
  obtain r where r: "create_infographic_yield env_ok = Inr r"
    "list_all radius_as_claimed (cv_calls (saved r))" by blast
  have y: "yield_run = r" by (simp add: yield_run_def r(1))
  from radius_clamped_to_floor_halves[of ideal_ellipse canvas30 0 0 20 5 3 1 env_ok] r
  show ?thesis unfolding y by (simp add: e)
qed

text \<open>
  Claim C2 as stated fails where half a side is not a whole number.  The accent bar of the
  first market card of \<open>create_features_infographic.py\<close> is the box \<open>(40, 384, 216, 389)\<close>
  with the requested radius 3: \<open>min (3, 176 / 2, 5 / 2)\<close> is \<open>5 / 2\<close>, and the six drawing
  calls are made with the radius 2.
\<close>

theorem radius_true_half_counterexample:
  "RoundedRect (40, 384, 216, 389) 3 (0, 212, 170) \<in> set (cv_calls (saved features_run))
   \<and> claimed_radius (40, 384, 216, 389) 3 = 5 / 2
   \<and> effective_radius (40, 384, 216, 389) 3 = 2
   \<and> draw_rounded_rect ideal_ellipse canvas_features (40, 384, 216, 389) 3 (0, 212, 170)
       = draw_rounded_rect_yield ideal_ellipse canvas_features (40, 384, 216, 389) 2 (0, 212, 170)
   \<and> of_int (effective_radius (40, 384, 216, 389) 3) \<noteq> claimed_radius (40, 384, 216, 389) 3"
proof -
  have e: "effective_radius (40, 384, 216, 389) 3 = 2" by (simp add: effective_radius_def)
  have c: "claimed_radius (40, 384, 216, 389) 3 = 5 / 2" by (simp add: claimed_radius_def)
  show ?thesis
    using market_accent_bar_drawn
      draw_rounded_rect_clamps[of ideal_ellipse canvas_features "(40, 384, 216, 389)" 3 "(0, 212, 170)"]
    by (simp add: e c)
qed

subsection \<open>Rows of the gradient\<close>

text \<open>
  Claim C1, amended.  For every box of width \<open>w \<ge> 0\<close> and height \<open>h \<ge> 1\<close> and every pair of
  top and bottom colours (channels in 0..255), the gradient buffer of \<open>draw_gradient_rect\<close>
  has the size of the box and fills each row \<open>row\<close> with the single opaque colour whose
  channels are \<open>int(top + (bottom - top) * (row / max(h - 1, 1)))\<close> in Python's floating
  point.  Row 0 is the top colour exactly.  The last row \<open>h - 1\<close> is the bottom colour
  exactly when \<open>h \<ge> 2\<close>; when \<open>h = 1\<close> the only row is the top colour.
\<close>

theorem gradient_buffer_rows:
  assumes "channel tr" "channel tg" "channel tb" "channel br" "channel bg" "channel bb"
    and "0 \<le> w" "1 \<le> h"
  shows "\<exists>buf. gradient_buffer (tr, tg, tb) (br, bg, bb) w h = Inr buf
           \<and> img_w buf = w \<and> img_h buf = h
           \<and> (\<forall>x row. 0 \<le> x \<and> x < w \<and> 0 \<le> row \<and> row < h \<longrightarrow>
                 img_px buf (x, row) = gradient_colour (tr, tg, tb) (br, bg, bb) h row)
           \<and> (\<forall>x. 0 \<le> x \<and> x < w \<longrightarrow> img_px buf (x, 0) = (tr, tg, tb, 255))
           \<and> (2 \<le> h \<longrightarrow> (\<forall>x. 0 \<le> x \<and> x < w \<longrightarrow> img_px buf (x, h - 1) = (br, bg, bb, 255)))
           \<and> (h = 1 \<longrightarrow> (\<forall>x. 0 \<le> x \<and> x < w \<longrightarrow> img_px buf (x, h - 1) = (tr, tg, tb, 255)))"
proof -
  from assms(7,8) obtain buf where buf: "gradient_buffer (tr, tg, tb) (br, bg, bb) w h = Inr buf"
    using gradient_buffer_Inr[of w h] by simp
  note px = gradient_buffer_spec[OF assms(1-6) buf]
  have rows: "\<forall>x row. 0 \<le> x \<and> x < w \<and> 0 \<le> row \<and> row < h \<longrightarrow>
                 img_px buf (x, row) = gradient_colour (tr, tg, tb) (br, bg, bb) h row"
    using px by blast
  have top: "\<forall>x. 0 \<le> x \<and> x < w \<longrightarrow> img_px buf (x, 0) = (tr, tg, tb, 255)"
    using px[of _ 0] assms(8) by (simp add: gradient_colour_top assms(1-3))
  have bot: "2 \<le> h \<longrightarrow> (\<forall>x. 0 \<le> x \<and> x < w \<longrightarrow> img_px buf (x, h - 1) = (br, bg, bb, 255))"
    using px[of _ "h - 1"] by (simp add: gradient_colour_bottom assms(1-6))
  have one: "h = 1 \<longrightarrow> (\<forall>x. 0 \<le> x \<and> x < w \<longrightarrow> img_px buf (x, h - 1) = (tr, tg, tb, 255))"
    using top by simp
  from buf gradient_buffer_px(1,2)[OF buf] rows top bot one show ?thesis by blast
qed

theorem gradient_buffer_rows_witness:
  "channel 30 \<and> channel 48 \<and> channel 68 \<and> channel 25 \<and> channel 39 \<and> channel 52
   \<and> (0::int) \<le> 358 \<and> (1::int) \<le> 200 \<and> (2::int) \<le> 200
   \<and> gradient_buffer (30, 48, 68) (25, 39, 52) 358 200 = Inr card_gradient
   \<and> img_w card_gradient = 358 \<and> img_h card_gradient = 200
   \<and> img_px card_gradient (5, 0) = (30, 48, 68, 255)
   \<and> img_px card_gradient (5, 200 - 1) = (25, 39, 52, 255)"
proof -
  have c: "channel 30" "channel 48" "channel 68" "channel 25" "channel 39" "channel 52"
    by (simp_all add: channel_def)
  from gradient_buffer_rows[OF c, of 358 200] obtain buf where
    "gradient_buffer (30, 48, 68) (25, 39, 52) 358 200 = Inr buf" "img_w buf = 358"
    "img_h buf = 200" "img_px buf (5, 0) = (30, 48, 68, 255)"
    "img_px buf (5, 200 - 1) = (25, 39, 52, 255)"
    by auto
  with c card_gradient_returns show ?thesis by auto
qed

text \<open>
  Claim C1 as stated fails at height 1: \<open>max(h - 1, 1)\<close> keeps the divisor at 1, the factor
  of the only row is 0, and the last row is the top colour, not the bottom one.
\<close>

theorem gradient_single_row_counterexample:
  "hex_to_rgb ''#000000'' = Inr (0, 0, 0) \<and> hex_to_rgb ''#ffffff'' = Inr (255, 255, 255)
   \<and> gradient_buffer (0, 0, 0) (255, 255, 255) 3 1 = Inr single_row
   \<and> img_h single_row = 1
   \<and> img_px single_row (0, 1 - 1) = (0, 0, 0, 255)
   \<and> img_px single_row (0, 1 - 1) \<noteq> (255, 255, 255, 255)"
proof -
  have c: "channel 0" "channel 255" by (simp_all add: channel_def)
  have h: "hex_to_rgb ''#000000'' = Inr (0, 0, 0)" "hex_to_rgb ''#ffffff'' = Inr (255, 255, 255)"
    by code_simp+
  have b: "gradient_buffer (0, 0, 0) (255, 255, 255) 3 1 = Inr single_row"
    by (simp add: gradient_buffer_Inr single_row_def)
  from gradient_buffer_spec[OF c(1) c(1) c(1) c(2) c(2) c(2) b, of 0 0]
  have "img_px single_row (0, 0) = (0, 0, 0, 255)"
    by (simp add: gradient_colour_top c)
  with h b gradient_buffer_px(2)[OF b] show ?thesis by simp
qed

text \<open>
  Claim C6.  For every top and bottom colour and every colour channel: when the top value
  is at most the bottom value, the values that \<open>draw_gradient_rect\<close> writes into the rows of
  its buffer do not decrease with the row index; when the top value is at least the bottom
  value, they do not increase.  Rounding to double and truncating to an integer keep the
  order.
\<close>

theorem gradient_rows_monotone:
  assumes "channel tr" "channel tg" "channel tb" "channel br" "channel bg" "channel bb"
    and "gradient_buffer (tr, tg, tb) (br, bg, bb) w h = Inr buf"
    and "0 \<le> x" "x < w" "0 \<le> row" "row \<le> row'" "row' < h"
  shows "(tr \<le> br \<longrightarrow> red (img_px buf (x, row)) \<le> red (img_px buf (x, row')))
       \<and> (br \<le> tr \<longrightarrow> red (img_px buf (x, row')) \<le> red (img_px buf (x, row)))
       \<and> (tg \<le> bg \<longrightarrow> green (img_px buf (x, row)) \<le> green (img_px buf (x, row')))
       \<and> (bg \<le> tg \<longrightarrow> green (img_px buf (x, row')) \<le> green (img_px buf (x, row)))
       \<and> (tb \<le> bb \<longrightarrow> blue (img_px buf (x, row)) \<le> blue (img_px buf (x, row')))
       \<and> (bb \<le> tb \<longrightarrow> blue (img_px buf (x, row')) \<le> blue (img_px buf (x, row)))"
proof -
  from assms(10-12) have r: "0 \<le> row" "row < h" "0 \<le> row'" "row' < h" by simp_all
  have p: "img_px buf (x, row) = gradient_colour (tr, tg, tb) (br, bg, bb) h row"
    by (rule gradient_buffer_spec[OF assms(1-9) r(1,2)])
  have p': "img_px buf (x, row') = gradient_colour (tr, tg, tb) (br, bg, bb) h row'"
    by (rule gradient_buffer_spec[OF assms(1-9) r(3,4)])
  have t: "int_truediv row (max (h - 1) 1) \<le> int_truediv row' (max (h - 1) 1)"
    using assms(11) by (intro int_truediv_mono) simp_all
  show ?thesis
    unfolding p p'
    by (simp add: gradient_colour_def red_def green_def blue_def
          gradient_channel_mono[OF _ t] gradient_channel_antimono[OF _ t])
qed

theorem gradient_rows_monotone_witness:
  "channel 30 \<and> channel 48 \<and> channel 68 \<and> channel 25 \<and> channel 39 \<and> channel 52
   \<and> gradient_buffer (30, 48, 68) (25, 39, 52) 358 200 = Inr card_gradient
   \<and> (0::int) \<le> 5 \<and> (5::int) < 358 \<and> (0::int) \<le> 40 \<and> (40::int) \<le> 120 \<and> (120::int) < 200
   \<and> (25::int) \<le> 30 \<and> red (img_px card_gradient (5, 120)) \<le> red (img_px card_gradient (5, 40))
   \<and> (39::int) \<le> 48 \<and> green (img_px card_gradient (5, 120)) \<le> green (img_px card_gradient (5, 40))
   \<and> (52::int) \<le> 68 \<and> blue (img_px card_gradient (5, 120)) \<le> blue (img_px card_gradient (5, 40))"
proof -
  have c: "channel 30" "channel 48" "channel 68" "channel 25" "channel 39" "channel 52"
    by (simp_all add: channel_def)
  from gradient_rows_monotone[OF c card_gradient_returns, of 5 40 120] c card_gradient_returns
  show ?thesis by simp
qed

subsection \<open>Compositing through the rounded mask\<close>

text \<open>
  Claim C8.  A call of \<open>draw_gradient_rect\<close> with a positive radius, two parseable colours
  and a box with \<open>x1 \<le> x2\<close>, \<open>y1 \<le> y2\<close> returns; the canvas keeps its size, and every pixel
  outside the rounded-rectangle region of the box keeps the colour it had.  The region is
  the one drawn into the mask, in the overlay's coordinates: the rounded rectangle of the
  box \<open>(0, 0, x2 - x1, y2 - y1)\<close> with the effective radius, met at \<open>(x - x1, y - y1)\<close>.
\<close>

theorem gradient_leaves_outside:
  assumes "hex_to_rgb color_top = Inr ct" "hex_to_rgb color_bot = Inr cb"
    and "x1 \<le> x2" "y1 \<le> y2" "0 < radius"
  shows "\<exists>img'. draw_gradient_rect E img (x1, y1, x2, y2) color_top color_bot radius = Inr img'
           \<and> img_w img' = img_w img \<and> img_h img' = img_h img
           \<and> (\<forall>x y. \<not> rounded_region E (0, 0, x2 - x1, y2 - y1)
                        (effective_radius (0, 0, x2 - x1, y2 - y1) radius) (x - x1, y - y1)
                 \<longrightarrow> img_px img' (x, y) = img_px img (x, y))"
proof -
  from draw_gradient_rect_rounded[OF assms, of E img] obtain buf md where
    buf: "gradient_buffer ct cb (x2 - x1) (y2 - y1) = Inr buf" and
    md: "draw_rounded_rect E \<lparr>img_w = x2 - x1, img_h = y2 - y1, img_px = (\<lambda>p. 0)\<rparr>
           (0, 0, x2 - x1, y2 - y1) radius 255 = Inr md" and
    res: "draw_gradient_rect E img (x1, y1, x2, y2) color_top color_bot radius
           = Inr (paste img (putalpha buf md) (x1, y1))"
    by blast
  from md have y: "draw_rounded_rect_yield E \<lparr>img_w = x2 - x1, img_h = y2 - y1, img_px = (\<lambda>p. 0)\<rparr>
           (0, 0, x2 - x1, y2 - y1) (effective_radius (0, 0, x2 - x1, y2 - y1) radius) 255 = Inr md"
    by (simp add: draw_rounded_rect_clamps)
  have "img_px (paste img (putalpha buf md) (x1, y1)) (x, y) = img_px img (x, y)"
    if "\<not> rounded_region E (0, 0, x2 - x1, y2 - y1)
          (effective_radius (0, 0, x2 - x1, y2 - y1) radius) (x - x1, y - y1)" for x y
  proof -
    from that draw_rounded_rect_yield_Inr(3)[OF y, of "(x - x1, y - y1)"]
    have "img_px md (x - x1, y - y1) = 0" by simp
    with putalpha_px(3)[of buf md "(x - x1, y - y1)"] show ?thesis
      by (intro paste_transparent) simp
  qed
  with res show ?thesis by (simp add: paste_px)
qed

theorem gradient_leaves_outside_witness:
  "hex_to_rgb ''#1e3044'' = Inr (30, 48, 68) \<and> hex_to_rgb ''#192734'' = Inr (25, 39, 52)
   \<and> (50::int) \<le> 408 \<and> (1697::int) \<le> 1897 \<and> (0::int) < 12
   \<and> draw_gradient_rect ideal_ellipse canvas_features (50, 1697, 408, 1897) ''#1e3044'' ''#192734'' 12
       = Inr card_pasted
   \<and> \<not> rounded_region ideal_ellipse (0, 0, 408 - 50, 1897 - 1697)
          (effective_radius (0, 0, 408 - 50, 1897 - 1697) 12) (50 - 50, 1697 - 1697)
   \<and> img_px card_pasted (50, 1697) = img_px canvas_features (50, 1697)
   \<and> img_w card_pasted = 1200 \<and> img_h card_pasted = 3200"
proof -
  have h: "hex_to_rgb ''#1e3044'' = Inr (30, 48, 68)" "hex_to_rgb ''#192734'' = Inr (25, 39, 52)"
    by code_simp+
  have r: "\<not> rounded_region ideal_ellipse (0, 0, 408 - 50, 1897 - 1697)
          (effective_radius (0, 0, 408 - 50, 1897 - 1697) 12) (50 - 50, 1697 - 1697)"
    by (simp add: rounded_region_def effective_radius_def ideal_ellipse_def in_rect_def)
  have s: "img_w canvas_features = 1200" "img_h canvas_features = 3200"
    by (simp_all add: canvas_features_def)
  from gradient_leaves_outside[OF h, of 50 408 1697 1897 12 ideal_ellipse canvas_features]
  obtain img' where "Inr card_pasted = Inr img'" "img_w img' = 1200" "img_h img' = 3200"
    "img_px img' (50, 1697) = img_px canvas_features (50, 1697)"
    using r by (auto simp: card_returns s)
  then show ?thesis using h r card_returns by simp
qed

subsection \<open>The cursor\<close>

text \<open>
  Claim C7.  In both scripts, in every environment, \<open>create_infographic\<close> returns and the
  cursor is only ever advanced by the amounts listed in \<open>advances\<close> (\<open>advances_yield\<close>
  for \<open>create_infographic.py\<close>), each strictly positive: the values the cursor takes over
  the run, from its start to its final value, are strictly increasing, so the value after
  each block is above the value before it and the cursor never decreases.  (The last line
  of \<open>create_infographic.py\<close> is drawn at the final cursor and no update follows it.)
\<close>

theorem cursor_strictly_increasing:
  "(\<exists>r. create_infographic e = Inr r
        \<and> cursors r = 20 # cursor_values 20 advances
        \<and> list_all (\<lambda>a. 0 < a) advances
        \<and> sorted_wrt (<) (cursors r))
   \<and> (\<exists>r. create_infographic_yield e = Inr r
        \<and> cursors r = 30 # cursor_values 30 (advances_yield (image_file e LOGO_PATH))
        \<and> list_all (\<lambda>a. 0 < a) (advances_yield (image_file e LOGO_PATH))
        \<and> sorted_wrt (<) (cursors r))"
proof
  from create_infographic_run[of e] obtain r where
    "create_infographic e = Inr r" "cursors r = 20 # cursor_values 20 advances" by blast
  with advances_positive(1) cursor_values_increasing[OF advances_positive(1), of 20]
  show "\<exists>r. create_infographic e = Inr r
        \<and> cursors r = 20 # cursor_values 20 advances
        \<and> list_all (\<lambda>a. 0 < a) advances
        \<and> sorted_wrt (<) (cursors r)" by simp
next
  from create_infographic_yield_run[of e] obtain r where
    "create_infographic_yield e = Inr r"
    "cursors r = 30 # cursor_values 30 (advances_yield (image_file e LOGO_PATH))" by blast
  with advances_positive(2) cursor_values_increasing[OF advances_positive(2), of 30]
  show "\<exists>r. create_infographic_yield e = Inr r
        \<and> cursors r = 30 # cursor_values 30 (advances_yield (image_file e LOGO_PATH))
        \<and> list_all (\<lambda>a. 0 < a) (advances_yield (image_file e LOGO_PATH))
        \<and> sorted_wrt (<) (cursors r)" by simp
qed

theorem cursor_strictly_increasing_witness:
  "create_infographic env_ok = Inr features_run
   \<and> cursors features_run =
       [20, 140, 188, 230, 340, 384, 601, 635, 683, 923, 957, 1001, 1286, 1320, 1362, 1520,
        1555, 1589, 1639, 1649, 1697, 1919, 1951, 1987, 2012, 2037, 2062, 2087, 2112, 2116,
        2146, 2178, 2308, 2342, 2386, 2631, 2665, 2705, 2900, 2975, 3003, 3033]
   \<and> sorted_wrt (<) (cursors features_run)
   \<and> create_infographic_yield env_ok = Inr yield_run
   \<and> cursors yield_run =
       [30, 170, 230, 280, 380, 690, 740, 880, 920, 965, 1000, 1035, 1070, 1090, 1230, 1270,
        1340, 1420, 1450]
   \<and> sorted_wrt (<) (cursors yield_run)"
proof -
  from cursor_strictly_increasing[of env_ok] obtain r r' where
    r: "create_infographic env_ok = Inr r" "cursors r = 20 # cursor_values 20 advances"
      "sorted_wrt (<) (cursors r)" and
    r': "create_infographic_yield env_ok = Inr r'"
      "cursors r' = 30 # cursor_values 30 (advances_yield (image_file env_ok LOGO_PATH))"
      "sorted_wrt (<) (cursors r')"
    by blast
  have e: "features_run = r" "yield_run = r'"
    by (simp_all add: features_run_def yield_run_def r(1) r'(1))
  have c: "cursors r =
       [20, 140, 188, 230, 340, 384, 601, 635, 683, 923, 957, 1001, 1286, 1320, 1362, 1520,
        1555, 1589, 1639, 1649, 1697, 1919, 1951, 1987, 2012, 2037, 2062, 2087, 2112, 2116,
        2146, 2178, 2308, 2342, 2386, 2631, 2665, 2705, 2900, 2975, 3003, 3033]"
    unfolding r(2) by (simp add: advances_def)
  have c': "cursors r' =
       [30, 170, 230, 280, 380, 690, 740, 880, 920, 965, 1000, 1035, 1070, 1090, 1230, 1270,
        1340, 1420, 1450]"
    unfolding r'(2) by (simp add: advances_yield_def image_file_env_ok)
  show ?thesis
    unfolding e using r(1,3) r'(1,3) c c' by (intro conjI)
qed

subsection \<open>Export\<close>

text \<open>
  Claim C3, amended.  \<open>create_features_infographic.py\<close> computes \<open>final_h\<close> as the final
  cursor plus 10; if \<open>final_h\<close> is below the allocated height 3200 it saves the crop
  \<open>(0, 0, 1200, final_h)\<close> of the working canvas, otherwise the canvas as allocated, never
  padded.  In every run the final cursor is 3033 and the saved image is 1200 by 3043.
  \<open>create_infographic.py\<close> has no crop: in every run it saves the canvas at its allocated
  size, 1200 by 1600, with the final cursor at 1450 (1430 without the logo).
\<close>

theorem export_crops_to_content:
  "(\<exists>r. create_infographic e = Inr r
        \<and> last (cursors r) = 3033
        \<and> cv_w (working r) = WIDTH \<and> cv_h (working r) = HEIGHT
        \<and> saved r = crop (working r) (0, 0, WIDTH, last (cursors r) + 10)
        \<and> cv_w (saved r) = 1200 \<and> cv_h (saved r) = 3043
        \<and> cv_calls (saved r) = cv_calls (working r))
   \<and> export img y = (if y + 10 < HEIGHT then crop img (0, 0, WIDTH, y + 10) else img)
   \<and> (\<exists>r. create_infographic_yield e = Inr r
        \<and> last (cursors r) = (if image_file e LOGO_PATH then 1450 else 1430)
        \<and> saved r = working r
        \<and> cv_w (saved r) = 1200 \<and> cv_h (saved r) = 1600)"
proof (intro conjI)
  from create_infographic_run[of e] obtain r hcs cs where
    r: "create_infographic e = Inr r" "cursors r = 20 # cursor_values 20 advances"
      "working r = \<lparr>cv_w = WIDTH, cv_h = HEIGHT, cv_background = (15, 20, 25), cv_calls = hcs @ cs\<rparr>"
      "saved r = export (working r) (20 + sum_list advances)"
    by blast
  have l: "last (cursors r) = 3033"
    unfolding r(2) last_cursor_values by (simp add: advances_sum)
  have s: "saved r = crop (working r) (0, 0, WIDTH, 3043)"
    unfolding r(4) by (simp add: export_def advances_sum HEIGHT_def)
  show "\<exists>r. create_infographic e = Inr r
        \<and> last (cursors r) = 3033
        \<and> cv_w (working r) = WIDTH \<and> cv_h (working r) = HEIGHT
        \<and> saved r = crop (working r) (0, 0, WIDTH, last (cursors r) + 10)
        \<and> cv_w (saved r) = 1200 \<and> cv_h (saved r) = 3043
        \<and> cv_calls (saved r) = cv_calls (working r)"
    using r(1) l s by (intro exI[of _ r]) (simp add: r(3) crop_def WIDTH_def)
next
  show "export img y = (if y + 10 < HEIGHT then crop img (0, 0, WIDTH, y + 10) else img)"
    by (simp add: export_def)
next
  from create_infographic_yield_run[of e] obtain r hcs cs where
    r: "create_infographic_yield e = Inr r"
      "cursors r = 30 # cursor_values 30 (advances_yield (image_file e LOGO_PATH))"
      "working r = \<lparr>cv_w = WIDTH, cv_h = HEIGHT_yield, cv_background = (15, 20, 25),
                     cv_calls = hcs @ cs\<rparr>"
      "saved r = working r"
    by blast
  have l: "last (cursors r) = (if image_file e LOGO_PATH then 1450 else 1430)"
    unfolding r(2) last_cursor_values by (simp add: advances_sum)
  show "\<exists>r. create_infographic_yield e = Inr r
        \<and> last (cursors r) = (if image_file e LOGO_PATH then 1450 else 1430)
        \<and> saved r = working r
        \<and> cv_w (saved r) = 1200 \<and> cv_h (saved r) = 1600"
    using r(1) l by (intro exI[of _ r]) (simp add: r(3,4) WIDTH_def HEIGHT_yield_def)
qed

theorem export_crops_to_content_witness:
  "create_infographic env_ok = Inr features_run
   \<and> last (cursors features_run) = 3033
   \<and> cv_h (working features_run) = 3200
   \<and> saved features_run = crop (working features_run) (0, 0, 1200, 3033 + 10)
   \<and> cv_w (saved features_run) = 1200 \<and> cv_h (saved features_run) = 3043
   \<and> export (working features_run) 3033 = crop (working features_run) (0, 0, 1200, 3043)
   \<and> create_infographic_yield env_bad = Inr yield_fallback
   \<and> last (cursors yield_fallback) = 1430
   \<and> saved yield_fallback = working yield_fallback
   \<and> cv_w (saved yield_fallback) = 1200 \<and> cv_h (saved yield_fallback) = 1600"
proof -
  have x: "export (working features_run) 3033 = crop (working features_run) (0, 0, 1200, 3043)"
    using export_crops_to_content[of env_ok "working features_run" 3033]
    by (simp add: HEIGHT_def WIDTH_def)
  from export_crops_to_content[of env_ok "working features_run" 3033] obtain r where
    r: "create_infographic env_ok = Inr r" "last (cursors r) = 3033"
      "cv_w (working r) = WIDTH" "cv_h (working r) = HEIGHT"
      "saved r = crop (working r) (0, 0, WIDTH, last (cursors r) + 10)"
      "cv_w (saved r) = 1200" "cv_h (saved r) = 3043"
    by blast
  from export_crops_to_content[of env_bad "working features_run" 3033] obtain r' where
    r': "create_infographic_yield env_bad = Inr r'"
      "last (cursors r') = (if image_file env_bad LOGO_PATH then 1450 else 1430)"
      "saved r' = working r'" "cv_w (saved r') = 1200" "cv_h (saved r') = 1600"
    by blast
  have e: "features_run = r" "yield_fallback = r'"
    by (simp_all add: features_run_def yield_fallback_def r(1) r'(1))
  show ?thesis
    using r r' x unfolding e[symmetric] by (simp add: WIDTH_def HEIGHT_def image_file_env_ok)
qed

text \<open>
  Claim C3 as stated fails for \<open>create_infographic.py\<close>: the final cursor 1450 is below
  the allocated height 1600, and the image saved is the whole canvas, not its crop.
\<close>

theorem yield_saves_uncropped_counterexample:
  "create_infographic_yield env_ok = Inr yield_run
   \<and> last (cursors yield_run) = 1450
   \<and> cv_w (working yield_run) = 1200 \<and> cv_h (working yield_run) = 1600
   \<and> last (cursors yield_run) < cv_h (working yield_run)
   \<and> cv_h (saved yield_run) = 1600
   \<and> saved yield_run \<noteq> crop (working yield_run) (0, 0, 1200, last (cursors yield_run))"
proof -
  from create_infographic_yield_run[of env_ok] obtain r hcs cs where
    r: "create_infographic_yield env_ok = Inr r"
      "cursors r = 30 # cursor_values 30 (advances_yield (image_file env_ok LOGO_PATH))"
      "working r = \<lparr>cv_w = WIDTH, cv_h = HEIGHT_yield, cv_background = (15, 20, 25),
                     cv_calls = hcs @ cs\<rparr>"
      "saved r = working r"
    by blast
  have y: "yield_run = r" by (simp add: yield_run_def r(1))
  have l: "last (cursors r) = 1450"
    unfolding r(2) last_cursor_values by (simp add: advances_sum image_file_env_ok)
  have "cv_h (crop (working r) (0, 0, 1200, 1450)) = 1450" by (simp add: crop_def)
  moreover have "cv_h (saved r) = 1600" by (simp add: r(3,4) HEIGHT_yield_def)
  ultimately have "saved r \<noteq> crop (working r) (0, 0, 1200, 1450)" by auto
  then show ?thesis
    unfolding y using r(1) l by (simp add: r(3,4) HEIGHT_yield_def WIDTH_def)
qed

subsection \<open>Failures to load a font or an image\<close>

text \<open>
  The two \<open>try\<close> blocks of each script.  In every environment the sequence of calls is
  defined: a failure to load a font or the logo or globe image is caught where it occurs.
  If a font file cannot be loaded, every text call uses the default font.  If the image
  cannot be loaded, the first call is the brand name as text (in the primary colour,
  centred) and there is no paste.
\<close>

lemma load_failures_caught:
  "(\<exists>r. create_infographic e = Inr r
        \<and> (\<not> font_file e Bold \<or> \<not> font_file e Regular \<longrightarrow>
             list_all (\<lambda>f. f = DefaultFont) (fonts_used (cv_calls (saved r))))
        \<and> (\<not> image_file e GLOBE_PATH \<longrightarrow>
             take 1 (cv_calls (saved r))
               = [Text (WIDTH div 2, 20 + 40) Latin1 (f_brand (load_fonts e)) (0, 212, 170) MM]
             \<and> filter is_paste (cv_calls (saved r)) = []))
   \<and> (\<exists>r. create_infographic_yield e = Inr r
        \<and> (\<not> font_file e Bold \<or> \<not> font_file e Regular \<longrightarrow>
             list_all (\<lambda>f. f = DefaultFont) (fonts_used (cv_calls (saved r))))
        \<and> (\<not> image_file e LOGO_PATH \<longrightarrow>
             take 1 (cv_calls (saved r))
               = [Text (WIDTH div 2, 30 + 50) Latin1 (font_large (load_fonts_yield e)) (0, 212, 170) MM]
             \<and> filter is_paste (cv_calls (saved r)) = []))"
proof
  from create_infographic_run[of e] obtain r hcs cs where
    r: "create_infographic e = Inr r"
      "working r = \<lparr>cv_w = WIDTH, cv_h = HEIGHT, cv_background = (15, 20, 25), cv_calls = hcs @ cs\<rparr>"
      "saved r = export (working r) (20 + sum_list advances)"
      "set (fonts_used hcs) \<subseteq> {f_brand (load_fonts e)}"
      "\<not> image_file e GLOBE_PATH \<longrightarrow>
          hcs = [Text (WIDTH div 2, 20 + 40) Latin1 (f_brand (load_fonts e)) (0, 212, 170) MM]"
      "list_all (plain (fonts_of (load_fonts e))) cs"
    by blast
  have calls: "cv_calls (saved r) = hcs @ cs"
    by (simp add: r(2,3) export_def crop_def Let_def)
  note ob = plain_observed[OF r(6)]
  have fonts: "list_all (\<lambda>f. f = DefaultFont) (fonts_used (hcs @ cs))"
    if "\<not> font_file e Bold \<or> \<not> font_file e Regular"
  proof -
    from load_fonts_default[OF that] have d: "load_fonts e = default_fonts" .
    have "set (fonts_used (hcs @ cs)) \<subseteq> {DefaultFont}"
      using r(4) ob(1) unfolding d fonts_of_default
      by (auto simp: fonts_used_append default_fonts_def)
    then show ?thesis by (auto simp: list_all_iff)
  qed
  have img: "take 1 (hcs @ cs)
               = [Text (WIDTH div 2, 20 + 40) Latin1 (f_brand (load_fonts e)) (0, 212, 170) MM]
             \<and> filter is_paste (hcs @ cs) = []"
    if "\<not> image_file e GLOBE_PATH"
    using r(5) that ob(2) by simp
  show "\<exists>r. create_infographic e = Inr r
        \<and> (\<not> font_file e Bold \<or> \<not> font_file e Regular \<longrightarrow>
             list_all (\<lambda>f. f = DefaultFont) (fonts_used (cv_calls (saved r))))
        \<and> (\<not> image_file e GLOBE_PATH \<longrightarrow>
             take 1 (cv_calls (saved r))
               = [Text (WIDTH div 2, 20 + 40) Latin1 (f_brand (load_fonts e)) (0, 212, 170) MM]
             \<and> filter is_paste (cv_calls (saved r)) = [])"
    using r(1) fonts img unfolding calls[symmetric] by blast
next
  from create_infographic_yield_run[of e] obtain r hcs cs where
    r: "create_infographic_yield e = Inr r"
      "working r = \<lparr>cv_w = WIDTH, cv_h = HEIGHT_yield, cv_background = (15, 20, 25),
                     cv_calls = hcs @ cs\<rparr>"
      "saved r = working r"
      "set (fonts_used hcs) \<subseteq> {font_large (load_fonts_yield e)}"
      "\<not> image_file e LOGO_PATH \<longrightarrow>
          hcs = [Text (WIDTH div 2, 30 + 50) Latin1 (font_large (load_fonts_yield e)) (0, 212, 170) MM]"
      "list_all (plain (fonts_of_yield (load_fonts_yield e))) cs"
    by blast
  have calls: "cv_calls (saved r) = hcs @ cs" by (simp add: r(2,3))
  note ob = plain_observed[OF r(6)]
  have fonts: "list_all (\<lambda>f. f = DefaultFont) (fonts_used (hcs @ cs))"
    if "\<not> font_file e Bold \<or> \<not> font_file e Regular"
  proof -
    from load_fonts_yield_default[OF that] have d: "load_fonts_yield e = default_fonts_yield" .
    have "set (fonts_used (hcs @ cs)) \<subseteq> {DefaultFont}"
      using r(4) ob(1) unfolding d fonts_of_default
      by (auto simp: fonts_used_append default_fonts_yield_def)
    then show ?thesis by (auto simp: list_all_iff)
  qed
  have img: "take 1 (hcs @ cs)
               = [Text (WIDTH div 2, 30 + 50) Latin1 (font_large (load_fonts_yield e)) (0, 212, 170) MM]
             \<and> filter is_paste (hcs @ cs) = []"
    if "\<not> image_file e LOGO_PATH"
    using r(5) that ob(2) by simp
  show "\<exists>r. create_infographic_yield e = Inr r
        \<and> (\<not> font_file e Bold \<or> \<not> font_file e Regular \<longrightarrow>
             list_all (\<lambda>f. f = DefaultFont) (fonts_used (cv_calls (saved r))))
        \<and> (\<not> image_file e LOGO_PATH \<longrightarrow>
             take 1 (cv_calls (saved r))
               = [Text (WIDTH div 2, 30 + 50) Latin1 (font_large (load_fonts_yield e)) (0, 212, 170) MM]
             \<and> filter is_paste (cv_calls (saved r)) = [])"
    using r(1) fonts img unfolding calls[symmetric] by blast
qed

text \<open>
  Where the regular font file and both images are missing and the default font is
  scalable, both scripts complete, with every text in the default font and a header of
  text alone.
\<close>

lemma fallback_completes:
  "main env_bad = Inr features_fallback
   \<and> list_all (\<lambda>f. f = DefaultFont) (fonts_used (cv_calls (saved features_fallback)))
   \<and> take 1 (cv_calls (saved features_fallback)) = [Text (600, 60) Latin1 DefaultFont (0, 212, 170) MM]
   \<and> filter is_paste (cv_calls (saved features_fallback)) = []
   \<and> main_yield env_bad = Inr yield_fallback
   \<and> list_all (\<lambda>f. f = DefaultFont) (fonts_used (cv_calls (saved yield_fallback)))
   \<and> take 1 (cv_calls (saved yield_fallback)) = [Text (600, 80) Latin1 DefaultFont (0, 212, 170) MM]
   \<and> filter is_paste (cv_calls (saved yield_fallback)) = []"
proof -
  have f: "\<not> font_file env_bad Bold \<or> \<not> font_file env_bad Regular"
    by (simp add: image_file_env_ok)
  have b: "font_file env_bad Bold \<and> font_file env_bad Regular \<or> \<not> bitmap_default env_bad"
    by (simp add: env_bad_def)
  have d: "f_brand (load_fonts env_bad) = DefaultFont"
    "font_large (load_fonts_yield env_bad) = DefaultFont"
    by (simp_all add: load_fonts_default[OF f] load_fonts_yield_default[OF f] default_fonts_def
          default_fonts_yield_def)
  from load_failures_caught[of env_bad] obtain r r' where
    r: "create_infographic env_bad = Inr r"
      "list_all (\<lambda>f. f = DefaultFont) (fonts_used (cv_calls (saved r)))"
      "take 1 (cv_calls (saved r)) = [Text (600, 60) Latin1 DefaultFont (0, 212, 170) MM]"
      "filter is_paste (cv_calls (saved r)) = []" and
    r': "create_infographic_yield env_bad = Inr r'"
      "list_all (\<lambda>f. f = DefaultFont) (fonts_used (cv_calls (saved r')))"
      "take 1 (cv_calls (saved r')) = [Text (600, 80) Latin1 DefaultFont (0, 212, 170) MM]"
      "filter is_paste (cv_calls (saved r')) = []"
    using f by (auto simp: image_file_env_ok d WIDTH_def)
  have "features_fallback = r" "yield_fallback = r'"
    by (simp_all add: features_fallback_def yield_fallback_def r(1) r'(1))
  with r r' main_returns[OF b] show ?thesis by simp
qed

text \<open>
  With both font files, or with a scalable default font, every call returns and the run
  completes (\<open>main_returns\<close>); with a font file missing and the bitmap default font, a
  string with a character outside Latin-1 is reached and \<open>draw.text\<close> raises
  (\<open>main_raises\<close>).
\<close>

text \<open>
  Claim C9 where the font files are missing and the default font of the library is the
  bitmap font.  The failure to load the fonts is caught and every font is the default font,
  as the claim says; then neither script completes: each reaches a \<open>draw.text\<close> with the
  default font and a string with a character outside Latin-1 (a bullet line of a card),
  which raises \<open>UnicodeEncodeError\<close>, and nothing catches it.
\<close>

theorem fallback_font_raises:
  "load_fonts env_bitmap = default_fonts
   \<and> load_fonts_yield env_bitmap = default_fonts_yield
   \<and> main env_bitmap = Inl UnicodeEncodeError
   \<and> main_yield env_bitmap = Inl UnicodeEncodeError"
proof -
  have f: "\<not> font_file env_bitmap Bold \<or> \<not> font_file env_bitmap Regular"
    by (simp add: env_bitmap_simps)
  show ?thesis
    using load_fonts_default[OF f] load_fonts_yield_default[OF f]
      main_raises[OF f env_bitmap_simps(2)]
    by simp
qed

end
